theory Spec2Isabelle
  imports Complex_Main "HOL-Library.Word"
begin

section \<open>Numeric conventions\<close>

text \<open>
  The three benchmark programs (\<^verbatim>\<open>upscale_mutex.c\<close>, \<^verbatim>\<open>upscale_fairness_test.c\<close>,
  \<^verbatim>\<open>upscale_fairness_cgroups.c\<close>) count in \<^verbatim>\<open>unsigned long long\<close> and report in
  \<^verbatim>\<open>double\<close>.

  \<^item> \<^verbatim>\<open>ull\<close> is a 64-bit word: \<open>+\<close> and \<open>*\<close> wrap, \<open>div\<close> truncates.
  \<^item> A \<^verbatim>\<open>double\<close> is modelled by the real number it denotes; infinities and NaN
    are outside the model. Where a conclusion depends on the rounding of IEEE binary64
    (Jain's index and the Gini coefficient of \<^verbatim>\<open>print_hierarchy_stats\<close>, the choice of
    the operation in the worker loop, the validation of the ratios in \<^verbatim>\<open>main\<close>) every
    operation is rounded, by the functions of the next section.
  \<^item> The lines of \<^verbatim>\<open>print_fairness_stats\<close>, the throughput spread and the comparison
    of the two fairness indices are stated over \<open>to_double\<close> and exact arithmetic: the
    value the machine computes there differs from the exact one by a relative error of
    a few units in \<open>10\<^sup>-\<^sup>1\<^sup>6\<close>, and the reports print one to four decimals.
  \<^item> A division of doubles whose divisor is zero produces an infinity or a NaN in C.
    The model has no such values: \<open>ddiv\<close> returns \<open>None\<close> there.
  \<^item> \<^verbatim>\<open>int\<close> values (thread counts, selectors, loop indices) are HOL integers; all of
    them stay far inside the 32-bit range in the code modelled here.
\<close>

type_synonym ull = "64 word"

definition to_double :: "ull \<Rightarrow> real" where
  "to_double w = real (unat w)"

definition ddiv :: "real \<Rightarrow> real \<Rightarrow> real option" where
  "ddiv a b = (if b = 0 then None else Some (a / b))"

section \<open>Binary64 arithmetic\<close>

text \<open>
  IEEE binary64 has 53 significant bits. A positive real \<open>x\<close> with
  \<open>2\<^sup>e \<le> x < 2\<^sup>e\<^sup>+\<^sup>1\<close> is rounded to the nearest multiple of \<open>2\<^sup>e\<^sup>-\<^sup>5\<^sup>2\<close>, a tie going to the even
  multiple; below \<open>2\<^sup>-\<^sup>1\<^sup>0\<^sup>2\<^sup>2\<close> the spacing stays \<open>2\<^sup>-\<^sup>1\<^sup>0\<^sup>7\<^sup>4\<close> (subnormal numbers). Overflow to
  infinity, at magnitudes of \<open>2\<^sup>1\<^sup>0\<^sup>2\<^sup>4\<close> and above, is outside the model.

  \<open>ilog2 n\<close> is the position of the leading bit of \<open>n\<close>; \<open>expo x\<close> is the exponent \<open>e\<close>
  above; \<open>rhe\<close> rounds to the nearest integer, ties to even.
\<close>

function ilog2 :: "int \<Rightarrow> int" where
  "ilog2 n = (if n < 2 then 0 else 1 + ilog2 (n div 2))"
  by auto
termination by (relation "measure nat") auto

declare ilog2.simps [simp del]

definition expo :: "real \<Rightarrow> int" where
  "expo x = (if 1 \<le> x then ilog2 \<lfloor>x\<rfloor> else - (1 + ilog2 (\<lceil>1 / x\<rceil> - 1)))"

definition rhe :: "real \<Rightarrow> int" where
  "rhe x = (let f = \<lfloor>x\<rfloor>; d = x - of_int f
            in if d < 1 / 2 then f else if 1 / 2 < d then f + 1
               else if even f then f else f + 1)"

definition round64 :: "real \<Rightarrow> real" where
  "round64 x = (if x = 0 then 0
                else let e = max (expo \<bar>x\<bar>) (- 1022); u = 2 powi (e - 52)
                     in sgn x * (of_int (rhe (\<bar>x\<bar> / u)) * u))"

text \<open>
  The arithmetic of the C type \<^verbatim>\<open>double\<close> (\<^verbatim>\<open>+\<close>, \<^verbatim>\<open>-\<close>, \<^verbatim>\<open>*\<close>, \<^verbatim>\<open>/\<close>) and the conversion
  \<^verbatim>\<open>(double)\<close> of an \<^verbatim>\<open>unsigned long long\<close>. \<^verbatim>\<open>fabs\<close> and the comparisons are exact.
\<close>

definition fadd :: "real \<Rightarrow> real \<Rightarrow> real" where
  "fadd a b = round64 (a + b)"

definition fsub :: "real \<Rightarrow> real \<Rightarrow> real" where
  "fsub a b = round64 (a - b)"

definition fmul :: "real \<Rightarrow> real \<Rightarrow> real" where
  "fmul a b = round64 (a * b)"

definition fdiv :: "real \<Rightarrow> real \<Rightarrow> real option" where
  "fdiv a b = (if b = 0 then None else Some (round64 (a / b)))"

definition cast_double :: "ull \<Rightarrow> real" where
  "cast_double w = round64 (real_of_int (uint w))"

section \<open>Thread configuration\<close>

text \<open>
  \<^verbatim>\<open>thread_config_t\<close>. The fields shared by the programs form the base record; each
  program extends it. Pointer fields (\<^verbatim>\<open>stop_flag\<close>, \<^verbatim>\<open>env\<close>, \<^verbatim>\<open>db\<close>), the thread
  handle and the fields that only \<^verbatim>\<open>setup_thread_hierarchy\<close> writes are left out.
\<close>

record thread_config =
  thread_id :: int
  insert_ratio :: real
  find_ratio :: real
  update_ratio :: real
  duration_seconds :: int
  insert_count :: ull
  find_count :: ull
  update_count :: ull
  insert_time :: ull
  find_time :: ull
  update_time :: ull
  lock_wait_time :: ull
  total_operations :: ull
  lock_acquisitions :: ull

record thread_config_mutex = thread_config +
  hierarchy_level :: int
  lock_contentions :: ull
  max_consecutive_acquisitions :: ull
  current_consecutive :: ull
  starvation_periods :: ull
  max_starvation_time :: ull
  last_lock_time :: ull
  dominated_lower_threads :: ull
  starved_by_higher :: ull

record thread_config_fair = thread_config +
  priority :: int
  weight :: int
  parent_node :: int
  slice_violations :: ull
  ban_time_total :: ull
  reacquire_count :: ull

abbreviation ops :: "'a thread_config_scheme \<Rightarrow> real" where
  "ops t \<equiv> to_double (total_operations t)"

section \<open>The overall metrics of \<^verbatim>\<open>print_hierarchy_stats\<close> (upscale\_mutex.c)\<close>

text \<open>
  The list \<open>threads\<close> holds \<^verbatim>\<open>threads[0 .. num_threads-1]\<close>, so \<^verbatim>\<open>num_threads\<close> is its
  length. Each definition is one block of the function, with the source's variable names.
\<close>

text \<open>
  Lines 694-700: the loop accumulating \<^verbatim>\<open>sum_ops\<close> and \<^verbatim>\<open>sum_ops_squared\<close>, in exact
  arithmetic.
\<close>

definition sum_ops_loop :: "'a thread_config_scheme list \<Rightarrow> real \<times> real" where
  "sum_ops_loop threads =
     fold (\<lambda>t (sum_ops, sum_ops_squared).
             (sum_ops + ops t, sum_ops_squared + ops t * ops t))
          threads (0, 0)"

text \<open>
  Line 701: \<^verbatim>\<open>(sum_ops * sum_ops) / (num_threads * sum_ops_squared)\<close>, in exact
  arithmetic. This reading serves the comparison with the index of
  \<^verbatim>\<open>print_fairness_stats\<close>; the binary64 reading follows at the end of the section.
\<close>

definition overall_fairness_index :: "'a thread_config_scheme list \<Rightarrow> real option" where
  "overall_fairness_index threads =
     (case sum_ops_loop threads of (sum_ops, sum_ops_squared) \<Rightarrow>
        ddiv (sum_ops * sum_ops) (real (length threads) * sum_ops_squared))"



text \<open>
  Lines 694-701 and 715-721 once more, in binary64: the loop accumulating
  \<^verbatim>\<open>sum_ops\<close> and \<^verbatim>\<open>sum_ops_squared\<close>, the index
  \<^verbatim>\<open>(sum_ops * sum_ops) / (num_threads * sum_ops_squared)\<close>, the double loop
  accumulating \<^verbatim>\<open>gini\<close>, and \<^verbatim>\<open>gini = gini / (2.0 * num_threads * sum_ops)\<close>. The
  conversion of \<^verbatim>\<open>num_threads\<close>, an \<^verbatim>\<open>int\<close>, to \<^verbatim>\<open>double\<close> is exact.
\<close>

abbreviation ops_b64 :: "'a thread_config_scheme \<Rightarrow> real" where
  "ops_b64 t \<equiv> cast_double (total_operations t)"

definition sum_ops_loop_b64 :: "'a thread_config_scheme list \<Rightarrow> real \<times> real" where
  "sum_ops_loop_b64 threads =
     fold (\<lambda>t (sum_ops, sum_ops_squared).
             (fadd sum_ops (ops_b64 t), fadd sum_ops_squared (fmul (ops_b64 t) (ops_b64 t))))
          threads (0, 0)"

definition overall_fairness_index_b64 :: "'a thread_config_scheme list \<Rightarrow> real option" where
  "overall_fairness_index_b64 threads =
     (case sum_ops_loop_b64 threads of (sum_ops, sum_ops_squared) \<Rightarrow>
        fdiv (fmul sum_ops sum_ops) (fmul (real (length threads)) sum_ops_squared))"

definition gini_loop :: "'a thread_config_scheme list \<Rightarrow> real" where
  "gini_loop threads =
     fold (\<lambda>ti gini. fold (\<lambda>tj gini. fadd gini \<bar>fsub (ops_b64 ti) (ops_b64 tj)\<bar>) threads gini)
          threads 0"

definition gini :: "'a thread_config_scheme list \<Rightarrow> real option" where
  "gini threads =
     fdiv (gini_loop threads)
          (fmul (fmul 2 (real (length threads))) (fst (sum_ops_loop_b64 threads)))"

section \<open>\<^verbatim>\<open>print_fairness_stats\<close> (upscale\_fairness\_test.c)\<close>

text \<open>
  \<^verbatim>\<open>CYCLE_PER_US\<close> is 2400 both by the \<^verbatim>\<open>#ifndef\<close> default and by the compile line
  in the file's first comment (\<^verbatim>\<open>-DCYCLE_PER_US=2400L\<close>).
\<close>

definition CYCLE_PER_US :: nat where
  "CYCLE_PER_US = 2400"

text \<open>
  Lines 593-596, one row of the per-thread table: \<^verbatim>\<open>ops_per_sec\<close>, \<^verbatim>\<open>lock_wait_ms\<close>
  and \<^verbatim>\<open>avg_wait_us\<close>. The product \<^verbatim>\<open>t->lock_acquisitions * CYCLE_PER_US\<close> is a
  64-bit product.
\<close>

definition thread_row :: "'a thread_config_scheme \<Rightarrow> int \<Rightarrow> (real \<times> real \<times> real) option" where
  "thread_row t duration =
     (case ddiv (ops t) (real_of_int duration) of
        None \<Rightarrow> None
      | Some ops_per_sec \<Rightarrow>
          let lock_wait_ms = to_double (lock_wait_time t) / real (CYCLE_PER_US * 1000) in
          (case (if lock_acquisitions t > 0
                 then ddiv (to_double (lock_wait_time t))
                           (to_double (lock_acquisitions t * of_nat CYCLE_PER_US))
                 else Some 0) of
             None \<Rightarrow> None
           | Some avg_wait_us \<Rightarrow> Some (ops_per_sec, lock_wait_ms, avg_wait_us)))"

text \<open>The rows of all threads, in order; \<open>None\<close> as soon as one row divides by zero.\<close>

fun thread_rows :: "'a thread_config_scheme list \<Rightarrow> int \<Rightarrow> (real \<times> real \<times> real) list option" where
  "thread_rows [] duration = Some []"
| "thread_rows (t # ts) duration =
     (case thread_row t duration of
        None \<Rightarrow> None
      | Some r \<Rightarrow> (case thread_rows ts duration of None \<Rightarrow> None | Some rs \<Rightarrow> Some (r # rs)))"

text \<open>Lines 602-604: the three 64-bit totals accumulated by the same loop.\<close>

definition fstats_totals :: "'a thread_config_scheme list \<Rightarrow> ull \<times> ull \<times> ull" where
  "fstats_totals threads =
     fold (\<lambda>t (total_ops, total_lock_wait, total_lock_acquisitions).
             (total_ops + total_operations t,
              total_lock_wait + lock_wait_time t,
              total_lock_acquisitions + lock_acquisitions t))
          threads (0, 0, 0)"

definition fstats_total_ops :: "'a thread_config_scheme list \<Rightarrow> ull" where
  "fstats_total_ops threads = fst (fstats_totals threads)"

text \<open>Lines 608-610: the two numbers of the \<^verbatim>\<open>Total:\<close> line.\<close>

definition fstats_total_line :: "'a thread_config_scheme list \<Rightarrow> int \<Rightarrow> (real \<times> real) option" where
  "fstats_total_line threads duration =
     (case fstats_totals threads of (total_ops, total_lock_wait, total_lock_acquisitions) \<Rightarrow>
        (case ddiv (to_double total_ops) (real_of_int duration) of
           None \<Rightarrow> None
         | Some total_per_sec \<Rightarrow>
             Some (total_per_sec, to_double total_lock_wait / real (CYCLE_PER_US * 1000))))"

text \<open>
  Lines 613-620: \<^verbatim>\<open>min_ops\<close> and \<^verbatim>\<open>max_ops\<close> start at \<^verbatim>\<open>threads[0]\<close> and the loop runs
  from index 1.
\<close>

definition fstats_min_max :: "'a thread_config_scheme list \<Rightarrow> (real \<times> real) option" where
  "fstats_min_max threads =
     (case threads of
        [] \<Rightarrow> None
      | t0 # rest \<Rightarrow>
          Some (fold (\<lambda>t (min_ops, max_ops).
                        (if ops t < min_ops then ops t else min_ops,
                         if ops t > max_ops then ops t else max_ops))
                     rest (ops t0, ops t0)))"

text \<open>Line 615: \<^verbatim>\<open>avg_ops = (double)total_ops / num_threads\<close>.\<close>

definition fstats_avg_ops :: "'a thread_config_scheme list \<Rightarrow> real option" where
  "fstats_avg_ops threads = ddiv (to_double (fstats_total_ops threads)) (real (length threads))"

text \<open>
  Lines 622-626. The divisor \<^verbatim>\<open>total_ops * total_ops / num_threads\<close> is computed in
  \<^verbatim>\<open>unsigned long long\<close> (\<^verbatim>\<open>num_threads\<close> is converted to it): the product wraps and
  the quotient truncates, and only the result is converted to \<^verbatim>\<open>double\<close>.
\<close>

definition fstats_fairness_index :: "'a thread_config_scheme list \<Rightarrow> real option" where
  "fstats_fairness_index threads =
     (case fstats_avg_ops threads of
        None \<Rightarrow> None
      | Some avg_ops \<Rightarrow>
          let total_ops = fstats_total_ops threads in
          if total_ops > 0
          then ddiv (avg_ops * avg_ops * real (length threads))
                    (to_double (total_ops * total_ops div of_nat (length threads)))
          else Some 0)"

text \<open>Lines 631-636: the \<^verbatim>\<open>Throughput Variation:\<close> line, a percentage or \<^verbatim>\<open>N/A\<close>.\<close>

datatype variation_line = Percent real | NA

definition fstats_throughput_variation :: "'a thread_config_scheme list \<Rightarrow> variation_line option" where
  "fstats_throughput_variation threads =
     (case (fstats_min_max threads, fstats_avg_ops threads) of
        (Some (min_ops, max_ops), Some avg_ops) \<Rightarrow>
          Some (if avg_ops > 0 then Percent (((max_ops - min_ops) / avg_ops) * 100) else NA)
      | _ \<Rightarrow> None)"

text \<open>
  The whole function: everything it prints, or \<open>None\<close> when one of its divisions has
  a zero divisor (or there is no \<^verbatim>\<open>threads[0]\<close> to read).
\<close>

record fairness_report =
  rows :: "(real \<times> real \<times> real) list"
  total_line :: "real \<times> real"
  min_max :: "real \<times> real"
  avg :: real
  index :: real
  variation :: variation_line

definition print_fairness_stats :: "'a thread_config_scheme list \<Rightarrow> int \<Rightarrow> fairness_report option" where
  "print_fairness_stats threads duration =
     (case (thread_rows threads duration, fstats_total_line threads duration,
            fstats_min_max threads, fstats_avg_ops threads,
            fstats_fairness_index threads, fstats_throughput_variation threads) of
        (Some rs, Some tot, Some mm, Some a, Some fi, Some v) \<Rightarrow>
          Some \<lparr>rows = rs, total_line = tot, min_max = mm, avg = a, index = fi, variation = v\<rparr>
      | _ \<Rightarrow> None)"

section \<open>Observable actions\<close>

text \<open>
  What a function does besides returning is a list of actions, in program order.
  \<open>Printf\<close> carries the format string (without its final newline), \<open>Call\<close> the name of
  a library function or of a function of the program that is not traced further.
  The store calls carry the key, which \<^verbatim>\<open>generate_key\<close> builds from a thread number
  and a key number, and whether \<^verbatim>\<open>UPS_OVERWRITE\<close> is passed.
\<close>

datatype action =
    Printf string
  | Perror string
  | Call string
  | Ups_db_insert int int bool
  | Ups_db_find int int
  | Pthread_create int
  | Pthread_join int
  | Sleep int
  | Usleep int
  | Set_global_stop

fun is_output :: "action \<Rightarrow> bool" where
  "is_output (Printf _) = True"
| "is_output (Perror _) = True"
| "is_output _ = False"

section \<open>The operations of the worker loop\<close>

text \<open>
  \<^verbatim>\<open>ups_status_t\<close>: the three values the programs test for, and every other status.
\<close>

datatype ups_status = UPS_SUCCESS | UPS_DUPLICATE_KEY | UPS_KEY_NOT_FOUND | UPS_OTHER int


definition MAX_THREADS :: int where
  "MAX_THREADS = 16"




















section \<open>Hierarchy construction (upscale\_fairness\_test.c)\<close>

text \<open>
  Modelled from the spec: \<^verbatim>\<open>node_t\<close> is declared in \<^verbatim>\<open>hfairlock.h\<close>, which is not among
  the sources. The spec's HierarchyNode has an id, a parent id, a weight, a
  critical-section count (all integers) and two timestamps; the code writes the
  fields \<^verbatim>\<open>id\<close>, \<^verbatim>\<open>parent\<close>, \<^verbatim>\<open>weight\<close>, \<^verbatim>\<open>cs\<close>, \<^verbatim>\<open>banned_until\<close> and \<^verbatim>\<open>slice\<close>.
\<close>

record node =
  node_id :: int
  parent :: int
  node_weight :: int
  cs :: int
  banned_until :: ull
  slice :: ull

text \<open>
  The assignments to one cell of the array, as every \<^verbatim>\<open>init_*_hierarchy\<close> writes them.
\<close>

definition mk_node :: "int \<Rightarrow> int \<Rightarrow> int \<Rightarrow> ull \<Rightarrow> node" where
  "mk_node i p w now =
     \<lparr>node_id = i, parent = p, node_weight = w, cs = 0, banned_until = now, slice = 0\<rparr>"

text \<open>
  \<^verbatim>\<open>malloc(num_nodes * sizeof(node_t))\<close>: a block of \<open>num_nodes\<close> cells with arbitrary
  content \<open>junk\<close>. (The code does not test the result of \<^verbatim>\<open>malloc\<close>; the model assumes
  it succeeds.)
\<close>

definition malloc_nodes :: "int \<Rightarrow> node \<Rightarrow> node list" where
  "malloc_nodes num_nodes junk = replicate (nat num_nodes) junk"

text \<open>
  Each function returns the array it stores in the global \<^verbatim>\<open>hierarchy\<close> and what it
  prints; \<open>now\<close> is the reading of \<^verbatim>\<open>rdtsc()\<close>. The loops run over the index lists
  \<open>[1..num_nodes - 1]\<close> and so on, writing one cell per pass.
\<close>

definition init_flat_hierarchy :: "int \<Rightarrow> ull \<Rightarrow> node \<Rightarrow> node list \<times> action list" where
  "init_flat_hierarchy num_threads now junk =
     (let num_nodes = num_threads + 1;
          hierarchy = malloc_nodes num_nodes junk;
          hierarchy = hierarchy[0 := mk_node 0 0 0 now];
          hierarchy = fold (\<lambda>i h. h[nat i := mk_node i 0 0 now]) [1..num_nodes - 1] hierarchy
      in (hierarchy, [Printf ''Initialized FLAT hierarchy: %d threads under root'']))"

definition init_balanced_hierarchy :: "int \<Rightarrow> ull \<Rightarrow> node \<Rightarrow> node list \<times> action list" where
  "init_balanced_hierarchy num_threads now junk =
     (let num_nodes = num_threads + 1;
          hierarchy = malloc_nodes num_nodes junk;
          hierarchy = hierarchy[0 := mk_node 0 0 0 now];
          hierarchy = fold (\<lambda>i h. h[nat i := mk_node i ((i - 1) div 2) 0 now])
                           [1..num_nodes - 1] hierarchy
      in (hierarchy, [Printf ''Initialized BALANCED hierarchy: binary tree with %d nodes'']))"

definition init_skewed_hierarchy :: "int \<Rightarrow> ull \<Rightarrow> node \<Rightarrow> node list \<times> action list" where
  "init_skewed_hierarchy num_threads now junk =
     (let num_nodes = num_threads + 1;
          hierarchy = malloc_nodes num_nodes junk;
          hierarchy = hierarchy[0 := mk_node 0 0 0 now];
          mid = num_threads div 2;
          hierarchy = fold (\<lambda>i h. h[nat i := mk_node i (if i \<le> mid then i - 1 else 0) 0 now])
                           [1..num_nodes - 1] hierarchy
      in (hierarchy,
          [Printf ''Initialized SKEWED hierarchy: %d nodes in chain, %d direct children'']))"

definition init_deep_hierarchy :: "int \<Rightarrow> ull \<Rightarrow> node \<Rightarrow> node list \<times> action list" where
  "init_deep_hierarchy num_threads now junk =
     (let num_nodes = num_threads + 1;
          hierarchy = malloc_nodes num_nodes junk;
          hierarchy = hierarchy[0 := mk_node 0 0 0 now];
          hierarchy = fold (\<lambda>i h. h[nat i := mk_node i (i - 1) 0 now]) [1..num_nodes - 1] hierarchy
      in (hierarchy, [Printf ''Initialized DEEP hierarchy: linear chain of %d nodes'']))"

definition init_grouped_hierarchy :: "int \<Rightarrow> ull \<Rightarrow> node \<Rightarrow> node list \<times> action list" where
  "init_grouped_hierarchy num_threads now junk =
     (let num_groups = 4;
          num_nodes = num_threads + num_groups + 1;
          hierarchy = malloc_nodes num_nodes junk;
          hierarchy = hierarchy[0 := mk_node 0 0 0 now];
          hierarchy = fold (\<lambda>g h. h[nat g := mk_node g 0 0 now]) [1..num_groups] hierarchy;
          hierarchy = fold (\<lambda>i h.
                              let node_id = num_groups + 1 + i;
                                  group_id = (i mod num_groups) + 1
                              in h[nat node_id := mk_node node_id group_id 1024 now])
                           [0..num_threads - 1] hierarchy
      in (hierarchy, [Printf ''Initialized GROUPED hierarchy: %d groups, %d threads total'']))"

text \<open>\<^verbatim>\<open>hierarchy_type_t\<close>, an enum, as the integers the \<^verbatim>\<open>switch\<close> compares.\<close>

definition HIERARCHY_FLAT :: int where "HIERARCHY_FLAT = 0"
definition HIERARCHY_BALANCED :: int where "HIERARCHY_BALANCED = 1"
definition HIERARCHY_SKEWED :: int where "HIERARCHY_SKEWED = 2"
definition HIERARCHY_DEEP :: int where "HIERARCHY_DEEP = 3"
definition HIERARCHY_GROUPED :: int where "HIERARCHY_GROUPED = 4"
definition HIERARCHY_CUSTOM :: int where "HIERARCHY_CUSTOM = 5"

definition init_hierarchy :: "int \<Rightarrow> int \<Rightarrow> ull \<Rightarrow> node \<Rightarrow> node list \<times> action list" where
  "init_hierarchy num_threads type now junk =
     (if type = HIERARCHY_FLAT then init_flat_hierarchy num_threads now junk
      else if type = HIERARCHY_BALANCED then init_balanced_hierarchy num_threads now junk
      else if type = HIERARCHY_SKEWED then init_skewed_hierarchy num_threads now junk
      else if type = HIERARCHY_DEEP then init_deep_hierarchy num_threads now junk
      else if type = HIERARCHY_GROUPED then init_grouped_hierarchy num_threads now junk
      else
        (case init_flat_hierarchy num_threads now junk of
           (hierarchy, acts) \<Rightarrow>
             (hierarchy, Printf ''Unknown hierarchy type, using flat hierarchy'' # acts)))"

text \<open>
  \<^verbatim>\<open>configure_threads_for_hierarchy\<close> (lines 503-549), for thread \<open>i\<close>: its
  \<^verbatim>\<open>priority\<close>, \<^verbatim>\<open>weight\<close> and \<^verbatim>\<open>parent_node\<close>. A right shift of a non-negative
  \<^verbatim>\<open>int\<close> is a division by a power of two.
\<close>

definition configure_thread :: "int \<Rightarrow> int \<Rightarrow> int \<Rightarrow> int \<times> int \<times> int" where
  "configure_thread type num_threads i =
     (if type = HIERARCHY_FLAT then (-10 + i mod 20, 1024 div 2 ^ nat (i mod 4), i + 1)
      else if type = HIERARCHY_BALANCED then (-5 + i mod 10, 512 + (i mod 3) * 256, i + 1)
      else if type = HIERARCHY_SKEWED
        then (if i < num_threads div 2 then -10 + i else 0,
              if i < num_threads div 2 then 2048 div 2 ^ nat i else 1024, i + 1)
      else if type = HIERARCHY_DEEP then (-15 + i, 1024 + i * 128, i + 1)
      else if type = HIERARCHY_GROUPED
        then (let group = i mod 4 in (-10 + group * 5, 1024 div 2 ^ nat group, 4 + 1 + i))
      else (0, 1024, i + 1))"

section \<open>The two \<^verbatim>\<open>main\<close> functions\<close>

text \<open>
  The command line after \<^verbatim>\<open>atoi\<close> and \<^verbatim>\<open>atof\<close>: \<open>argc\<close>, and the numbers read from
  \<^verbatim>\<open>argv[1]\<close>, \<^verbatim>\<open>argv[2]\<close>, \<^verbatim>\<open>argv[4]\<close>, \<^verbatim>\<open>argv[5]\<close> and \<^verbatim>\<open>argv[6]\<close>. A field is read
  only when \<open>argc\<close> says the argument is there. The two ratios are the doubles that
  \<^verbatim>\<open>atof\<close> returns, taken to be finite (neither an infinity nor NaN).
\<close>

record cmdline =
  argc :: int
  arg_num_threads :: int
  arg_duration :: int
  arg_insert_ratio :: real
  arg_find_ratio :: real
  arg_selector :: int

text \<open>
  What the library returns during one run: the results of the lock, store and thread
  creation calls, the reading of \<^verbatim>\<open>rdtsc()\<close> and the content of fresh memory.
  \<open>adaptive_settype_ok\<close> says that \<^verbatim>\<open>PTHREAD_MUTEX_ADAPTIVE_NP\<close> is defined and
  accepted.
\<close>

record sys_results =
  pthread_spin_init_ret :: int
  pthread_mutexattr_init_ret :: int
  adaptive_settype_ok :: bool
  pthread_mutex_init_ret :: int
  hfairlock_init_ret :: int
  ups_env_create_st :: ups_status
  ups_env_create_db_st :: ups_status
  pthread_create_ret :: "int \<Rightarrow> int"
  rdtsc_now :: ull
  malloc_junk :: node

text \<open>
  A run of \<^verbatim>\<open>main\<close>: its return value, its actions in order, the thread records as
  configured before the threads start, and the hierarchy array (fair lock only).
\<close>

record 't run =
  exit_status :: int
  trace :: "action list"
  threads_of :: "'t list"
  hierarchy_of :: "node list"

definition exit_early :: "int \<Rightarrow> action list \<Rightarrow> 't run" where
  "exit_early code acts = \<lparr>exit_status = code, trace = acts, threads_of = [], hierarchy_of = []\<rparr>"

text \<open>\<^verbatim>\<open>lock_type_t\<close>, an enum, as the integers the \<^verbatim>\<open>switch\<close> compares.\<close>

definition LOCK_MUTEX :: int where "LOCK_MUTEX = 0"
definition LOCK_SPIN :: int where "LOCK_SPIN = 1"
definition LOCK_RWLOCK :: int where "LOCK_RWLOCK = 2"
definition LOCK_ADAPTIVE_MUTEX :: int where "LOCK_ADAPTIVE_MUTEX = 3"

text \<open>
  \<^verbatim>\<open>init_lock\<close> (upscale\_mutex.c lines 205-261): its return value and its actions.
  (The calls of \<^verbatim>\<open>pthread_mutexattr_settype\<close> are not recorded; their outcome is
  \<open>adaptive_settype_ok\<close>.)
\<close>

definition init_lock :: "int \<Rightarrow> sys_results \<Rightarrow> int \<times> action list" where
  "init_lock type sys =
     (if type = LOCK_MUTEX
        then (0, [Printf ''Using standard pthread_mutex (UNFAIR - hierarchy should matter)''])
      else if type = LOCK_SPIN
        then (if pthread_spin_init_ret sys \<noteq> 0
              then (-1, [Call ''pthread_spin_init'', Perror ''pthread_spin_init''])
              else (0, [Call ''pthread_spin_init'',
                        Printf ''Using pthread_spinlock (UNFAIR - hierarchy should matter)'']))
      else if type = LOCK_RWLOCK
        then (0, [Printf ''Using pthread_rwlock (write locks) (hierarchy should matter)''])
      else if type = LOCK_ADAPTIVE_MUTEX
        then (if pthread_mutexattr_init_ret sys \<noteq> 0
              then (-1, [Call ''pthread_mutexattr_init'', Perror ''pthread_mutexattr_init''])
              else
                let acts = Call ''pthread_mutexattr_init'' #
                           (if adaptive_settype_ok sys then []
                            else [Printf ''Adaptive mutex not supported, using normal mutex''])
                in if pthread_mutex_init_ret sys \<noteq> 0
                   then (-1, acts @ [Call ''pthread_mutex_init'', Perror ''pthread_mutex_init'',
                                     Call ''pthread_mutexattr_destroy''])
                   else (0, acts @ [Call ''pthread_mutex_init'', Call ''pthread_mutexattr_destroy'',
                                    Printf ''Using adaptive pthread_mutex (hierarchy should matter)'']))
      else (-1, [Printf ''Unknown lock type'']))"

text \<open>
  The thread records as \<^verbatim>\<open>main\<close> fills them before the threads start: upscale\_mutex.c
  lines 831-863; upscale\_fairness\_test.c lines 708-733, after
  \<^verbatim>\<open>configure_threads_for_hierarchy\<close>.
\<close>

definition init_thread_mutex :: "int \<Rightarrow> real \<Rightarrow> real \<Rightarrow> real \<Rightarrow> int \<Rightarrow> thread_config_mutex" where
  "init_thread_mutex i ir fr ur duration =
     \<lparr>thread_id = i, insert_ratio = ir, find_ratio = fr, update_ratio = ur,
      duration_seconds = duration,
      insert_count = 0, find_count = 0, update_count = 0,
      insert_time = 0, find_time = 0, update_time = 0,
      lock_wait_time = 0, total_operations = 0, lock_acquisitions = 0,
      hierarchy_level = i mod 5,
      lock_contentions = 0, max_consecutive_acquisitions = 0, current_consecutive = 0,
      starvation_periods = 0, max_starvation_time = 0, last_lock_time = 0,
      dominated_lower_threads = 0, starved_by_higher = 0\<rparr>"

definition init_thread_fair :: "int \<Rightarrow> int \<Rightarrow> int \<Rightarrow> real \<Rightarrow> real \<Rightarrow> real \<Rightarrow> int \<Rightarrow> thread_config_fair" where
  "init_thread_fair type num_threads i ir fr ur duration =
     (case configure_thread type num_threads i of
        (p, w, pn) \<Rightarrow>
          \<lparr>thread_id = i, insert_ratio = ir, find_ratio = fr, update_ratio = ur,
           duration_seconds = duration,
           insert_count = 0, find_count = 0, update_count = 0,
           insert_time = 0, find_time = 0, update_time = 0,
           lock_wait_time = 0, total_operations = 0, lock_acquisitions = 0,
           priority = p, weight = w, parent_node = pn,
           slice_violations = 0, ban_time_total = 0, reacquire_count = 0\<rparr>)"

text \<open>
  The loops that start the threads: the first failing \<^verbatim>\<open>pthread_create\<close> prints, sets
  the stop flag and leaves the loop. upscale\_mutex.c sleeps 10 ms after each start.
\<close>

fun start_threads_mutex :: "int list \<Rightarrow> (int \<Rightarrow> int) \<Rightarrow> action list" where
  "start_threads_mutex [] cr = []"
| "start_threads_mutex (i # rest) cr =
     (if cr i \<noteq> 0
      then [Pthread_create i, Printf ''Failed to create thread %d'', Set_global_stop]
      else Pthread_create i # Usleep 10000 # start_threads_mutex rest cr)"

fun start_threads_fair :: "int list \<Rightarrow> (int \<Rightarrow> int) \<Rightarrow> action list" where
  "start_threads_fair [] cr = []"
| "start_threads_fair (i # rest) cr =
     (if cr i \<noteq> 0
      then [Pthread_create i, Printf ''Failed to create thread %d'', Set_global_stop]
      else Pthread_create i # start_threads_fair rest cr)"

definition usage_mutex :: "action list" where
  "usage_mutex =
     [Printf ''Usage: %s <num_threads> <duration_seconds> <db_file> [insert_ratio] [find_ratio] [lock_type]'',
      Printf ''  insert_ratio: 0.0-1.0 (default 0.3)'',
      Printf ''  find_ratio: 0.0-1.0 (default 0.6, update_ratio = 1.0-insert-find)'',
      Printf ''  lock_type: 0=MUTEX, 1=SPINLOCK, 2=RWLOCK, 3=ADAPTIVE_MUTEX (default 0)'',
      Printf ''  Threads will be assigned to hierarchy levels automatically.'']"

definition usage_fair :: "action list" where
  "usage_fair =
     [Printf ''Usage: %s <num_threads> <duration_seconds> <db_file> [insert_ratio] [find_ratio] [hierarchy_type]'',
      Printf ''  insert_ratio: 0.0-1.0 (default 0.3)'',
      Printf ''  find_ratio: 0.0-1.0 (default 0.6, update_ratio = 1.0-insert-find)'',
      Printf ''  hierarchy_type: 0=FLAT, 1=BALANCED, 2=SKEWED, 3=DEEP, 4=GROUPED (default 0)'']"

text \<open>
  The two ratio arguments with their defaults, as both \<^verbatim>\<open>main\<close> functions read them:
  \<^verbatim>\<open>argc > 4 ? atof(argv[4]) : 0.3\<close> and \<^verbatim>\<open>argc > 5 ? atof(argv[5]) : 0.6\<close>. The
  constants \<^verbatim>\<open>0.3\<close> and \<^verbatim>\<open>0.6\<close> are the doubles nearest to these decimals.
\<close>

definition parsed_insert_ratio :: "cmdline \<Rightarrow> real" where
  "parsed_insert_ratio a = (if argc a > 4 then arg_insert_ratio a else round64 0.3)"

definition parsed_find_ratio :: "cmdline \<Rightarrow> real" where
  "parsed_find_ratio a = (if argc a > 5 then arg_find_ratio a else round64 0.6)"

text \<open>
  The selector argument. upscale\_mutex.c line 790 casts it to \<^verbatim>\<open>lock_type_t\<close>
  unchecked; upscale\_fairness\_test.c lines 654-662 keep \<^verbatim>\<open>HIERARCHY_FLAT\<close> unless the
  number is between 0 and 4.
\<close>

definition parsed_lock_type :: "cmdline \<Rightarrow> int" where
  "parsed_lock_type a = (if argc a > 6 then arg_selector a else LOCK_MUTEX)"

definition parsed_hierarchy_type :: "cmdline \<Rightarrow> int" where
  "parsed_hierarchy_type a =
     (if argc a > 6
      then (let type_num = arg_selector a
            in if type_num \<ge> 0 \<and> type_num \<le> 4 then type_num else HIERARCHY_FLAT)
      else HIERARCHY_FLAT)"

text \<open>\<^verbatim>\<open>main\<close> of upscale\_mutex.c (lines 774-913).\<close>

definition main_mutex :: "cmdline \<Rightarrow> sys_results \<Rightarrow> thread_config_mutex run" where
  "main_mutex a sys =
     (if argc a < 4 then exit_early 1 usage_mutex
      else
        let num_threads = arg_num_threads a;
            duration = arg_duration a;
            ir = parsed_insert_ratio a;
            fr = parsed_find_ratio a;
            ur = fsub (fsub 1.0 ir) fr;
            lock_type = parsed_lock_type a
        in
        if num_threads > MAX_THREADS \<or> num_threads < 1
        then exit_early 1 [Printf ''Number of threads must be between 1 and %d'']
        else if fadd ir fr > 1.0
        then exit_early 1 [Printf ''insert_ratio + find_ratio must be <= 1.0'']
        else
          let t0 = [Printf ''Starting hierarchical lock fairness test with %d threads for %d seconds'',
                    Printf ''Operation ratios: Insert=%.2f, Find=%.2f, Update=%.2f'']
          in case init_lock lock_type sys of
               (ret, acts) \<Rightarrow>
                 if ret \<noteq> 0 then exit_early 1 (t0 @ acts)
                 else if ups_env_create_st sys \<noteq> UPS_SUCCESS
                 then exit_early 1 (t0 @ acts @ [Call ''ups_env_create'',
                                                 Printf ''Failed to create environment: %s''])
                 else if ups_env_create_db_st sys \<noteq> UPS_SUCCESS
                 then exit_early 1 (t0 @ acts @ [Call ''ups_env_create'', Call ''ups_env_create_db'',
                                                 Printf ''Failed to create database: %s'',
                                                 Call ''ups_env_close''])
                 else
                   \<lparr>exit_status = 0,
                    trace =
                      t0 @ acts @ [Call ''ups_env_create'', Call ''ups_env_create_db'',
                                   Printf ''Thread Hierarchy Assignment:''] @
                      map (\<lambda>i. Printf ''Thread %2d: %s (sys_prio=%d, nice=%d)'') [0..num_threads - 1] @
                      [Printf []] @
                      start_threads_mutex [0..num_threads - 1] (pthread_create_ret sys) @
                      [Printf ''Running test for %d seconds...'', Sleep duration, Set_global_stop,
                       Printf ''Stopping threads...''] @
                      map Pthread_join [0..num_threads - 1] @
                      [Call ''print_hierarchy_stats'', Call ''ups_db_close'', Call ''ups_env_close'',
                       Call ''destroy_lock'',
                       Printf ''Test completed successfully!'',
                       Printf ''To run with different lock types:'',
                       Printf ''  0 = MUTEX (should show hierarchy effects)'',
                       Printf ''  1 = SPINLOCK (should show hierarchy effects)'',
                       Printf ''  2 = RWLOCK (may show hierarchy effects)'',
                       Printf ''  3 = ADAPTIVE_MUTEX (may show hierarchy effects)''],
                    threads_of = map (\<lambda>i. init_thread_mutex i ir fr ur duration) [0..num_threads - 1],
                    hierarchy_of = []\<rparr>)"

text \<open>\<^verbatim>\<open>main\<close> of upscale\_fairness\_test.c (lines 639-769).\<close>

definition main_fair :: "cmdline \<Rightarrow> sys_results \<Rightarrow> thread_config_fair run" where
  "main_fair a sys =
     (if argc a < 4 then exit_early 1 usage_fair
      else
        let num_threads = arg_num_threads a;
            duration = arg_duration a;
            ir = parsed_insert_ratio a;
            fr = parsed_find_ratio a;
            ur = fsub (fsub 1.0 ir) fr;
            hierarchy_type = parsed_hierarchy_type a
        in
        if num_threads > MAX_THREADS \<or> num_threads < 1
        then exit_early 1 [Printf ''Number of threads must be between 1 and %d'']
        else if fadd ir fr > 1.0
        then exit_early 1 [Printf ''insert_ratio + find_ratio must be <= 1.0'']
        else
          let t0 = [Printf ''Starting fairness test with %d threads for %d seconds'',
                    Printf ''Operation ratios: Insert=%.2f, Find=%.2f, Update=%.2f'']
          in case init_hierarchy num_threads hierarchy_type (rdtsc_now sys) (malloc_junk sys) of
               (hierarchy, acts) \<Rightarrow>
                 let t1 = t0 @ acts @ [Call ''hfairlock_init''] in
                 if hfairlock_init_ret sys \<noteq> 0
                 then \<lparr>exit_status = 1,
                       trace = t1 @ [Printf ''Failed to initialize global fairlock''],
                       threads_of = [], hierarchy_of = hierarchy\<rparr>
                 else if ups_env_create_st sys \<noteq> UPS_SUCCESS
                 then \<lparr>exit_status = 1,
                       trace = t1 @ [Call ''ups_env_create'', Printf ''Failed to create environment: %s''],
                       threads_of = [], hierarchy_of = hierarchy\<rparr>
                 else if ups_env_create_db_st sys \<noteq> UPS_SUCCESS
                 then \<lparr>exit_status = 1,
                       trace = t1 @ [Call ''ups_env_create'', Call ''ups_env_create_db'',
                                     Printf ''Failed to create database: %s'', Call ''ups_env_close''],
                       threads_of = [], hierarchy_of = hierarchy\<rparr>
                 else
                   \<lparr>exit_status = 0,
                    trace =
                      t1 @ [Call ''ups_env_create'', Call ''ups_env_create_db'',
                            Call ''print_hierarchy_structure''] @
                      start_threads_fair [0..num_threads - 1] (pthread_create_ret sys) @
                      [Sleep duration, Set_global_stop, Printf ''Stopping threads...''] @
                      map Pthread_join [0..num_threads - 1] @
                      [Call ''print_fairness_stats'', Call ''ups_db_close'', Call ''ups_env_close'',
                       Call ''hfairlock_destroy'', Call ''free'',
                       Printf ''Test completed successfully!''],
                    threads_of =
                      map (\<lambda>i. init_thread_fair hierarchy_type num_threads i ir fr ur duration)
                          [0..num_threads - 1],
                    hierarchy_of = hierarchy\<rparr>)"

section \<open>The metrics as the specification words them\<close>


definition spec_jain_index :: "'a thread_config_scheme list \<Rightarrow> real" where
  "spec_jain_index threads =
     (\<Sum>t\<leftarrow>threads. ops t)\<^sup>2 / (real (length threads) * (\<Sum>t\<leftarrow>threads. (ops t)\<^sup>2))"



section \<open>Sample runs\<close>

text \<open>
  The concrete inputs of the evaluations below: a command line with all six
  arguments and a duration of ten seconds; a run in which every library call
  succeeds; the inputs of one operation and of one pass through the loop body; the
  shared variables of upscale\_mutex.c with their initial values (lines 104 and
  114-118); and thread records as \<^verbatim>\<open>main\<close> sets them up (ratios 0.3, 0.6 and 0.1, ten
  seconds), after a run in which thread \<open>i\<close> completed \<open>xs ! i\<close> operations, each under
  one lock acquisition.
\<close>

definition cmd :: "int \<Rightarrow> real \<Rightarrow> real \<Rightarrow> int \<Rightarrow> cmdline" where
  "cmd n ir fr sel =
     \<lparr>argc = 7, arg_num_threads = n, arg_duration = 10,
      arg_insert_ratio = ir, arg_find_ratio = fr, arg_selector = sel\<rparr>"

definition all_ok :: sys_results where
  "all_ok =
     \<lparr>pthread_spin_init_ret = 0, pthread_mutexattr_init_ret = 0, adaptive_settype_ok = True,
      pthread_mutex_init_ret = 0, hfairlock_init_ret = 0,
      ups_env_create_st = UPS_SUCCESS, ups_env_create_db_st = UPS_SUCCESS,
      pthread_create_ret = (\<lambda>i. 0), rdtsc_now = 1000, malloc_junk = mk_node 99 99 99 99\<rparr>"




fun after_run_mutex :: "int \<Rightarrow> ull list \<Rightarrow> thread_config_mutex list" where
  "after_run_mutex i [] = []"
| "after_run_mutex i (x # xs) =
     (init_thread_mutex i 0.3 0.6 0.1 10)\<lparr>total_operations := x, lock_acquisitions := x\<rparr>
       # after_run_mutex (i + 1) xs"

fun after_run_fair :: "int \<Rightarrow> ull list \<Rightarrow> thread_config_fair list" where
  "after_run_fair i [] = []"
| "after_run_fair i (x # xs) =
     (init_thread_fair 0 4 i 0.3 0.6 0.1 10)\<lparr>total_operations := x, lock_acquisitions := x\<rparr>
       # after_run_fair (i + 1) xs"

section \<open>Binary64 rounding\<close>

lemma ilog2_nonneg: "0 \<le> ilog2 n"
proof (induction n rule: ilog2.induct)
  case (1 n)
  show ?case
  proof (cases "n < 2")
    case True
    then show ?thesis by (simp add: ilog2.simps)
  next
    case False
    have "ilog2 n = 1 + ilog2 (n div 2)" using False by (subst ilog2.simps) simp
    with 1 [OF False] show ?thesis by simp
  qed
qed

lemma ilog2_bounds: "0 < n \<Longrightarrow> 2 ^ nat (ilog2 n) \<le> n \<and> n < 2 ^ nat (ilog2 n + 1)"
proof (induction n rule: ilog2.induct)
  case (1 n)
  show ?case
  proof (cases "n < 2")
    case True
    with 1(2) have "n = 1" by simp
    then show ?thesis by (simp add: ilog2.simps)
  next
    case False
    then have pos: "0 < n div 2" by simp
    from 1(1)[OF False pos]
    have IH: "2 ^ nat (ilog2 (n div 2)) \<le> n div 2" "n div 2 < 2 ^ nat (ilog2 (n div 2) + 1)"
      by auto
    have e: "ilog2 n = 1 + ilog2 (n div 2)"
      using False by (subst ilog2.simps) simp
    have s: "nat (1 + ilog2 (n div 2)) = Suc (nat (ilog2 (n div 2)))"
      "nat (1 + ilog2 (n div 2) + 1) = Suc (nat (ilog2 (n div 2) + 1))"
      using ilog2_nonneg [of "n div 2"] by simp_all
    have a: "2 * (n div 2) \<le> n" by simp
    have b: "n < 2 * (n div 2) + 2" by presburger
    show ?thesis unfolding e s using IH a b by simp
  qed
qed

lemma ilog2_pow:
  assumes "0 < n"
  shows "(2::real) powi ilog2 n \<le> of_int n" and "of_int n + 1 \<le> (2::real) powi (ilog2 n + 1)"
proof -
  from ilog2_bounds [OF assms]
  have nb: "2 ^ nat (ilog2 n) \<le> n" "n + 1 \<le> 2 ^ nat (ilog2 n + 1)" by simp_all
  have p: "(2::real) powi ilog2 n = of_int (2 ^ nat (ilog2 n))"
    "(2::real) powi (ilog2 n + 1) = of_int (2 ^ nat (ilog2 n + 1))"
    using ilog2_nonneg [of n] by (simp_all add: power_int_def)
  from nb(1) have "real_of_int (2 ^ nat (ilog2 n)) \<le> of_int n" by (simp only: of_int_le_iff)
  then show "(2::real) powi ilog2 n \<le> of_int n" unfolding p .
  from nb(2) have "real_of_int (n + 1) \<le> of_int (2 ^ nat (ilog2 n + 1))"
    by (simp only: of_int_le_iff)
  then show "of_int n + 1 \<le> (2::real) powi (ilog2 n + 1)" unfolding p by simp
qed

lemma expo_bounds:
  assumes "0 < x"
  shows "2 powi expo x \<le> x \<and> x < 2 powi (expo x + 1)"
proof (cases "1 \<le> x")
  case True
  define N where "N = \<lfloor>x\<rfloor>"
  have N: "0 < N" "of_int N \<le> x" "x < of_int N + 1"
    using True unfolding N_def by auto
  have e: "expo x = ilog2 N" using True by (simp add: expo_def N_def)
  from ilog2_pow [OF N(1)] N show ?thesis unfolding e by linarith
next
  case False
  define y where "y = 1 / x"
  have y: "1 < y" using False assms by (simp add: y_def)
  define M where "M = \<lceil>y\<rceil> - 1"
  have c: "2 \<le> \<lceil>y\<rceil>" using y by linarith
  have M: "0 < M" "of_int M < y" "y \<le> of_int M + 1"
    using c unfolding M_def by (auto) linarith+
  have e: "expo x = - (1 + ilog2 M)"
    using False by (simp add: expo_def M_def y_def)
  from ilog2_pow [OF M(1)] M
  have b: "2 powi ilog2 M < y" "y \<le> 2 powi (ilog2 M + 1)" by linarith+
  have x: "x = 1 / y" using assms by (simp add: y_def)
  have p: "(0::real) < 2 powi ilog2 M" "(0::real) < 2 powi (ilog2 M + 1)"
    by (simp_all add: zero_less_power_int)
  have "1 / 2 powi (ilog2 M + 1) \<le> x" "x < 1 / 2 powi ilog2 M"
    unfolding x using b y p by (simp_all add: field_simps)
  moreover have "(2::real) powi (- (1 + ilog2 M)) = 1 / 2 powi (ilog2 M + 1)"
    by (simp only: power_int_minus inverse_eq_divide add.commute)
  moreover have "- (1 + ilog2 M) + 1 = - ilog2 M" by simp
  moreover have "(2::real) powi (- ilog2 M) = 1 / 2 powi ilog2 M"
    by (simp only: power_int_minus inverse_eq_divide)
  ultimately show ?thesis unfolding e by (simp only:)
qed

lemma expo_unique:
  assumes "0 < x" "2 powi e \<le> x" "x < 2 powi (e + 1)"
  shows "expo x = e"
proof (rule ccontr)
  assume ne: "expo x \<noteq> e"
  from expo_bounds [OF assms(1)]
  have b: "2 powi expo x \<le> x" "x < 2 powi (expo x + 1)" by simp_all
  show False
  proof (cases "expo x < e")
    case True
    then have "(2::real) powi (expo x + 1) \<le> 2 powi e"
      by (intro power_int_increasing) simp_all
    with b assms show False by simp
  next
    case False
    with ne have "(2::real) powi (e + 1) \<le> 2 powi expo x"
      by (intro power_int_increasing) simp_all
    with b assms show False by simp
  qed
qed

lemma rhe_of_int: "rhe (of_int k) = k"
  by (simp add: rhe_def)

lemma rhe_ge: "of_int k \<le> x \<Longrightarrow> k \<le> rhe x"
  unfolding rhe_def Let_def by (simp add: le_floor_iff) linarith

lemma rhe_le: "x \<le> of_int k \<Longrightarrow> rhe x \<le> k"
proof -
  assume a: "x \<le> of_int k"
  show ?thesis
  proof (cases "x = of_int k")
    case True then show ?thesis by (simp add: rhe_of_int)
  next
    case False
    with a have "x < of_int k" by simp
    then have "\<lfloor>x\<rfloor> < k" by (simp add: floor_less_iff)
    then show ?thesis unfolding rhe_def Let_def by simp
  qed
qed

lemma rhe_err: "\<bar>of_int (rhe x) - x\<bar> \<le> 1 / 2"
  unfolding rhe_def Let_def by (simp; linarith)


lemma pw_pos: "(0::real) < 2 powi k"
  by (simp add: zero_less_power_int)

lemma pw_add: "(2::real) powi (a + b) = 2 powi a * 2 powi b"
  by (simp add: power_int_add)

lemma pw_nat: "0 \<le> k \<Longrightarrow> (2::real) powi k = of_int (2 ^ nat k)"
  by (simp add: power_int_def)

lemma pw_mono: "a \<le> b \<Longrightarrow> (2::real) powi a \<le> 2 powi b"
  by (intro power_int_increasing) simp_all

lemma pw_less_imp: "(2::real) powi a < 2 powi b \<Longrightarrow> a < b"
  using pw_mono [of b a] by (cases "a < b") simp_all

lemma pw_split: "(2::real) powi k = 2 powi (k - e) * 2 powi e"
  using pw_add [of "k - e" e] by simp

lemma round64_0: "round64 0 = 0"
  by (simp add: round64_def)

lemma round64_minus: "round64 (- x) = - round64 x"
  by (simp add: round64_def Let_def)

lemma round64_pos:
  "0 < x \<Longrightarrow> round64 x = of_int (rhe (x / 2 powi (max (expo x) (- 1022) - 52)))
      * 2 powi (max (expo x) (- 1022) - 52)"
  by (simp add: round64_def Let_def)

lemma round64_eq:
  assumes "0 < x" "2 powi e \<le> x" "x < 2 powi (e + 1)" "- 1022 \<le> e"
  shows "round64 x = of_int (rhe (x / 2 powi (e - 52))) * 2 powi (e - 52)"
proof -
  have "expo x = e" using assms(1-3) by (rule expo_unique)
  then have "max (expo x) (- 1022) = e" using assms(4) by simp
  then show ?thesis using round64_pos [OF assms(1)] by simp
qed

lemma round64_eval:
  assumes "0 < x" "2 powi e \<le> x" "x < 2 powi (e + 1)" "- 1022 \<le> e"
    and "rhe (x / 2 powi (e - 52)) = k"
  shows "round64 x = of_int k * 2 powi (e - 52)"
  using round64_eq [OF assms(1-4)] assms(5) by simp

lemma expo_le:
  assumes "0 < x" "x \<le> 2 powi k"
  shows "expo x \<le> k"
proof -
  from expo_bounds [OF assms(1)] assms(2) have "(2::real) powi expo x \<le> 2 powi k"
    by simp
  then have "\<not> 2 powi k < (2::real) powi expo x" by simp
  then show ?thesis using pw_mono [of "k + 1" "expo x"] pw_less_imp [of k "k + 1"]
    by (metis add.commute add_diff_cancel_left' dual_order.strict_trans2 linorder_not_less
        pw_less_imp zle_diff1_eq power_int_strict_increasing one_less_numeral_iff semiring_norm(76) zless_add1_eq less_irrefl)
qed


lemma expo_ge:
  assumes "0 < x" "2 powi k \<le> x"
  shows "k \<le> expo x"
proof -
  from expo_bounds [OF assms(1)] assms(2) have "(2::real) powi k < 2 powi (expo x + 1)"
    by simp
  then have "k < expo x + 1" by (rule pw_less_imp)
  then show ?thesis by simp
qed

lemma round64_le:
  assumes "0 < x" "x \<le> 2 powi k" "- 1022 \<le> k"
  shows "round64 x \<le> 2 powi k"
proof -
  define e where "e = max (expo x) (- 1022)"
  have ek: "e \<le> k" using expo_le [OF assms(1,2)] assms(3) by (simp add: e_def)
  define K where "K = (2::int) ^ nat (k - (e - 52))"
  have K: "(2::real) powi (k - (e - 52)) = of_int K"
    unfolding K_def using ek by (intro pw_nat) simp
  have s: "(2::real) powi k = of_int K * 2 powi (e - 52)"
    using pw_split [of k "e - 52"] K by simp
  have "x / 2 powi (e - 52) \<le> of_int K"
    using assms(2) pw_pos [of "e - 52"] unfolding s by (simp add: field_simps)
  then have "rhe (x / 2 powi (e - 52)) \<le> K" by (rule rhe_le)
  then have "real_of_int (rhe (x / 2 powi (e - 52))) \<le> of_int K" by simp
  then have "real_of_int (rhe (x / 2 powi (e - 52))) * 2 powi (e - 52) \<le> of_int K * 2 powi (e - 52)"
    using pw_pos [of "e - 52"] by (intro mult_right_mono) simp_all
  then show ?thesis using round64_pos [OF assms(1)] unfolding s e_def by simp
qed

lemma round64_ge:
  assumes "2 powi k \<le> x" "- 1022 \<le> k"
  shows "2 powi k \<le> round64 x"
proof -
  have x: "0 < x" using pw_pos [of k] assms(1) by linarith
  define e where "e = expo x"
  have ke: "k \<le> e" using expo_ge [OF x assms(1)] by (simp add: e_def)
  then have m: "max (expo x) (- 1022) = e" using assms(2) by (simp add: e_def)
  have K: "(2::real) powi 52 = of_int (2 ^ 52)" by simp
  have s: "(2::real) powi e = of_int (2 ^ 52) * 2 powi (e - 52)"
    using pw_split [of e "e - 52"] by simp
  have "2 powi e \<le> x" using expo_bounds [OF x] by (simp add: e_def)
  then have "of_int (2 ^ 52) \<le> x / 2 powi (e - 52)"
    using pw_pos [of "e - 52"] unfolding s by (simp add: field_simps)
  then have "2 ^ 52 \<le> rhe (x / 2 powi (e - 52))" by (rule rhe_ge)
  then have "real_of_int (2 ^ 52) \<le> of_int (rhe (x / 2 powi (e - 52)))"
    by (simp only: of_int_le_iff)
  then have "real_of_int (2 ^ 52) * 2 powi (e - 52) \<le> of_int (rhe (x / 2 powi (e - 52))) * 2 powi (e - 52)"
    using pw_pos [of "e - 52"] by (intro mult_right_mono) simp_all
  then have "2 powi e \<le> round64 x" using round64_pos [OF x] unfolding m s by simp
  then show ?thesis using pw_mono [OF ke] by linarith
qed

lemma round64_exact:
  assumes "0 < x" "x / 2 powi (max (expo x) (- 1022) - 52) = of_int m"
  shows "round64 x = x"
proof -
  have "round64 x = of_int m * 2 powi (max (expo x) (- 1022) - 52)"
    using round64_pos [OF assms(1)] by (simp add: assms(2) rhe_of_int)
  also have "\<dots> = x"
    using assms(2) pw_pos [of "max (expo x) (- 1022) - 52"] by (simp add: field_simps)
  finally show ?thesis .
qed

lemma round64_of_nat:
  assumes "n \<le> 2 ^ 53"
  shows "round64 (real n) = real n"
proof (cases "n = 0")
  case True then show ?thesis by (simp add: round64_0)
next
  case False
  define x where "x = real n"
  have x: "0 < x" "1 \<le> x" using False by (simp_all add: x_def)
  have xle: "x \<le> 2 powi 53"
  proof -
    have "real n \<le> real (2 ^ 53)" using assms by (simp only: of_nat_le_iff)
    then show ?thesis by (simp add: x_def)
  qed
  define e where "e = expo x"
  have e0: "0 \<le> e" using expo_ge [of x 0] x by (simp add: e_def)
  have e53: "e \<le> 53" using expo_le [OF x(1) xle] by (simp add: e_def)
  have m: "max (expo x) (- 1022) = e" using e0 by (simp add: e_def)
  show ?thesis
  proof (cases "e = 53")
    case True
    have "2 powi 53 \<le> x" using expo_bounds [OF x(1)] True by (simp add: e_def)
    with xle have x53: "x = 2 powi 53" by simp
    have "x / 2 powi (e - 52) = of_int (2 ^ 52)"
      unfolding True x53 by simp
    then have "x / 2 powi (max (expo x) (- 1022) - 52) = of_int (2 ^ 52)"
      unfolding m .
    from round64_exact [OF x(1) this] show ?thesis by (simp add: x_def)
  next
    case False
    with e53 have le: "e \<le> 52" by simp
    have p: "(2::real) powi (52 - e) = of_int (2 ^ nat (52 - e))"
      using le by (intro pw_nat) simp
    have "(2::real) powi (e - 52) * 2 powi (52 - e) = 1"
      using pw_add [of "e - 52" "52 - e"] by simp
    then have "x / 2 powi (e - 52) = x * 2 powi (52 - e)"
      using pw_pos [of "e - 52"] by (simp add: field_simps)
    also have "\<dots> = of_int (int n * 2 ^ nat (52 - e))"
      unfolding p by (simp add: x_def)
    finally have "x / 2 powi (max (expo x) (- 1022) - 52) = of_int (int n * 2 ^ nat (52 - e))"
      unfolding m .
    from round64_exact [OF x(1) this] show ?thesis by (simp add: x_def)
  qed
qed

lemma round64_nonneg: "0 \<le> x \<Longrightarrow> 0 \<le> round64 x"
  by (simp add: round64_def Let_def sgn_if zero_le_mult_iff pw_pos less_imp_le rhe_ge)

lemma round64_le_1: "x \<le> 1 \<Longrightarrow> round64 x \<le> 1"
proof -
  assume a: "x \<le> 1"
  show ?thesis
  proof (cases "0 < x")
    case True
    from round64_le [OF True, of 0] a show ?thesis by simp
  next
    case False
    then have "0 \<le> - x" by simp
    then have "0 \<le> round64 (- x)" by (rule round64_nonneg)
    then show ?thesis by (simp add: round64_minus)
  qed
qed

lemma fadd_le_1: "a + b \<le> 1 \<Longrightarrow> (1 < fadd a b) = False"
  using round64_le_1 [of "a + b"] by (simp add: fadd_def)

section \<open>Conversion lemmas\<close>

lemma to_double_eq_0_iff: "to_double w = 0 \<longleftrightarrow> w = 0"
  unfolding to_double_def by (simp only: of_nat_eq_0_iff unat_eq_0)

lemma to_double_0: "to_double 0 = 0"
  by (simp add: to_double_def)

section \<open>Jain's index\<close>

lemma two_prod_le_squares:
  fixes c :: real
  shows "2 * c * sum_list xs \<le> (\<Sum>x\<leftarrow>xs. x * x) + real (length xs) * (c * c)"
proof (induction xs)
  case Nil
  then show ?case by simp
next
  case (Cons x xs)
  have "0 \<le> (x - c) * (x - c)" by simp
  then have "2 * c * x \<le> x * x + c * c" by (simp add: algebra_simps)
  with Cons show ?case by (simp add: algebra_simps)
qed

lemma sum_squared_le:
  fixes xs :: "real list"
  shows "sum_list xs * sum_list xs \<le> real (length xs) * (\<Sum>x\<leftarrow>xs. x * x)"
proof (induction xs)
  case Nil
  then show ?case by simp
next
  case (Cons x xs)
  have "2 * x * sum_list xs \<le> (\<Sum>x\<leftarrow>xs. x * x) + real (length xs) * (x * x)"
    by (rule two_prod_le_squares)
  with Cons show ?case by (simp add: algebra_simps)
qed

lemma real_sum_list: "real (\<Sum>t\<leftarrow>ts. f t) = (\<Sum>t\<leftarrow>ts. real (f t))"
  by (induction ts) simp_all

lemma round64_real_add: "a + b \<le> 2 ^ 53 \<Longrightarrow> fadd (real a) (real b) = real (a + b)"
  using round64_of_nat [of "a + b"] by (simp add: fadd_def)

lemma round64_real_mult: "a * b \<le> 2 ^ 53 \<Longrightarrow> fmul (real a) (real b) = real (a * b)"
  using round64_of_nat [of "a * b"] by (simp add: fmul_def)

lemma uint_unat_real: "real_of_int (uint w) = real (unat w)"
  by simp

lemma cast_double_exact: "unat w \<le> 2 ^ 53 \<Longrightarrow> cast_double w = real (unat w)"
  unfolding cast_double_def uint_unat_real by (rule round64_of_nat)

lemma sum_ops_b64_fold:
  fixes threads :: "'a thread_config_scheme list"
  assumes "A + (\<Sum>t\<leftarrow>threads. unat (total_operations t)) \<le> 2 ^ 53"
    and "B + (\<Sum>t\<leftarrow>threads. unat (total_operations t) * unat (total_operations t)) \<le> 2 ^ 53"
  shows "fold (\<lambda>t (sum_ops, sum_ops_squared).
             (fadd sum_ops (ops_b64 t), fadd sum_ops_squared (fmul (ops_b64 t) (ops_b64 t))))
          threads (real A, real B)
       = (real (A + (\<Sum>t\<leftarrow>threads. unat (total_operations t))),
          real (B + (\<Sum>t\<leftarrow>threads. unat (total_operations t) * unat (total_operations t))))"
  using assms
proof (induction threads arbitrary: A B)
  case Nil
  then show ?case by simp
next
  case (Cons t ts)
  define x where "x = unat (total_operations t)"
  define S where "S = (\<Sum>t\<leftarrow>ts. unat (total_operations t))"
  define Q where "Q = (\<Sum>t\<leftarrow>ts. unat (total_operations t) * unat (total_operations t))"
  have p: "A + x + S \<le> 2 ^ 53" "B + x * x + Q \<le> 2 ^ 53"
    using Cons.prems by (simp_all add: x_def S_def Q_def add.assoc)
  then have b: "A + x \<le> 2 ^ 53" "x * x \<le> 2 ^ 53" "B + x * x \<le> 2 ^ 53" by linarith+
  have "x \<le> x * x" by (cases x) simp_all
  with b(2) have x53: "x \<le> 2 ^ 53" by linarith
  have c: "ops_b64 t = real x" unfolding x_def using x53 [unfolded x_def] by (rule cast_double_exact)
  have step: "(fadd (real A) (ops_b64 t), fadd (real B) (fmul (ops_b64 t) (ops_b64 t)))
      = (real (A + x), real (B + x * x))"
    unfolding c by (simp only: round64_real_add [OF b(1)] round64_real_mult [OF b(2)]
        round64_real_add [OF b(3)])
  have IH: "fold (\<lambda>t (sum_ops, sum_ops_squared).
             (fadd sum_ops (ops_b64 t), fadd sum_ops_squared (fmul (ops_b64 t) (ops_b64 t))))
          ts (real (A + x), real (B + x * x))
       = (real (A + x + S), real (B + x * x + Q))"
    unfolding S_def Q_def using p [unfolded S_def Q_def] by (rule Cons.IH)
  have "fold (\<lambda>t (sum_ops, sum_ops_squared).
             (fadd sum_ops (ops_b64 t), fadd sum_ops_squared (fmul (ops_b64 t) (ops_b64 t))))
          (t # ts) (real A, real B)
       = fold (\<lambda>t (sum_ops, sum_ops_squared).
             (fadd sum_ops (ops_b64 t), fadd sum_ops_squared (fmul (ops_b64 t) (ops_b64 t))))
          ts (fadd (real A) (ops_b64 t), fadd (real B) (fmul (ops_b64 t) (ops_b64 t)))"
    by simp
  also have "\<dots> = (real (A + x + S), real (B + x * x + Q))"
    unfolding step by (rule IH)
  also have "\<dots> = (real (A + (\<Sum>t\<leftarrow>t # ts. unat (total_operations t))),
          real (B + (\<Sum>t\<leftarrow>t # ts. unat (total_operations t) * unat (total_operations t))))"
    by (simp add: x_def S_def Q_def add.assoc)
  finally show ?case .
qed

lemma sum_squared_le_nat:
  fixes xs :: "nat list"
  shows "sum_list xs * sum_list xs \<le> length xs * (\<Sum>x\<leftarrow>xs. x * x)"
proof -
  have "sum_list (map real xs) * sum_list (map real xs)
      \<le> real (length (map real xs)) * (\<Sum>x\<leftarrow>map real xs. x * x)"
    by (rule sum_squared_le)
  moreover have "real (sum_list xs) = sum_list (map real xs)"
    using real_sum_list [of "\<lambda>x. x" xs] by simp
  ultimately have "real (sum_list xs * sum_list xs) \<le> real (length xs * (\<Sum>x\<leftarrow>xs. x * x))"
    by (simp add: real_sum_list comp_def)
  then show ?thesis by (simp only: of_nat_le_iff)
qed

lemma sum_list_const_nat:
  "\<forall>t\<in>set ts. f t = (c::nat) \<Longrightarrow> (\<Sum>t\<leftarrow>ts. f t) = length ts * c"
  by (induction ts) simp_all

text \<open>
  C1, as amended. Let \<open>x\<^sub>1..x\<^sub>n\<close> be per-thread operation counts with \<open>n \<ge> 1\<close>, some
  \<open>x\<^sub>i > 0\<close> and \<open>n \<cdot> \<Sum>x\<^sub>i\<^sup>2 \<le> 2\<^sup>5\<^sup>3\<close>, so that every sum and product of lines 694-701 is
  exact in binary64. Then the overall fairness index of \<^verbatim>\<open>print_hierarchy_stats\<close> is
  defined and is the binary64 rounding of \<open>(\<Sum>x\<^sub>i)\<^sup>2 / (n \<cdot> \<Sum>x\<^sub>i\<^sup>2)\<close>; it lies in \<open>(0,1]\<close>; it
  is exactly 1 when all counts are equal; and when all counts but the last are zero
  it is the binary64 rounding of \<open>1/n\<close>.
\<close>

theorem jain_index_overall:
  fixes threads :: "'a thread_config_scheme list"
  assumes ne: "threads \<noteq> []"
    and pos: "\<exists>t\<in>set threads. total_operations t \<noteq> 0"
    and small: "length threads
                  * (\<Sum>t\<leftarrow>threads. unat (total_operations t) * unat (total_operations t))
                \<le> 2 ^ 53"
  shows "\<exists>J. overall_fairness_index_b64 threads = Some J
     \<and> J = round64 ((\<Sum>t\<leftarrow>threads. real (unat (total_operations t)))\<^sup>2
                     / (real (length threads)
                        * (\<Sum>t\<leftarrow>threads. (real (unat (total_operations t)))\<^sup>2)))
     \<and> 0 < J \<and> J \<le> 1
     \<and> ((\<forall>t\<in>set threads. \<forall>u\<in>set threads. total_operations t = total_operations u) \<longrightarrow> J = 1)
     \<and> ((\<exists>x. map total_operations threads = replicate (length threads - 1) 0 @ [x])
          \<longrightarrow> J = round64 (1 / real (length threads)))"
proof -
  define n where "n = length threads"
  define S where "S = (\<Sum>t\<leftarrow>threads. unat (total_operations t))"
  define Q where "Q = (\<Sum>t\<leftarrow>threads. unat (total_operations t) * unat (total_operations t))"
  define q where "q = real (S * S) / real (n * Q)"
  have n1: "1 \<le> n" using ne by (cases threads) (simp_all add: n_def)
  from pos obtain t where t: "t \<in> set threads" "unat (total_operations t) \<noteq> 0"
    by (auto simp: unat_eq_0)
  have "unat (total_operations t) \<le> S"
    unfolding S_def using t(1) by (intro member_le_sum_list) auto
  with t(2) have Spos: "0 < S" by linarith
  have "unat (total_operations t) * unat (total_operations t) \<le> Q"
    unfolding Q_def using t(1) by (intro member_le_sum_list) auto
  moreover have "0 < unat (total_operations t) * unat (total_operations t)" using t(2) by simp
  ultimately have Qpos: "0 < Q" by linarith
  have nQ: "n * Q \<le> 2 ^ 53" using small by (simp add: n_def Q_def)
  have "Q \<le> n * Q" using n1 by simp
  with nQ have Q53: "Q \<le> 2 ^ 53" by linarith
  have cs: "S * S \<le> n * Q"
    using sum_squared_le_nat [of "map (\<lambda>t. unat (total_operations t)) threads"]
    by (simp add: S_def Q_def n_def comp_def)
  with nQ have SS53: "S * S \<le> 2 ^ 53" by linarith
  have "S \<le> S * S" by (cases S) simp_all
  with SS53 have S53: "S \<le> 2 ^ 53" by linarith
  have loop: "sum_ops_loop_b64 threads = (real S, real Q)"
    unfolding sum_ops_loop_b64_def S_def Q_def
    using sum_ops_b64_fold [of 0 threads 0] S53 Q53 by (simp add: S_def Q_def)
  have den: "real (n * Q) \<noteq> 0" using n1 Qpos by simp
  have idx: "overall_fairness_index_b64 threads = Some (round64 q)"
    unfolding overall_fairness_index_b64_def loop n_def [symmetric]
    using den
    by (simp add: round64_real_mult [OF SS53] round64_real_mult [OF nQ] fdiv_def q_def)
  have form: "q = (\<Sum>t\<leftarrow>threads. real (unat (total_operations t)))\<^sup>2
                     / (real (length threads)
                        * (\<Sum>t\<leftarrow>threads. (real (unat (total_operations t)))\<^sup>2))"
    unfolding q_def S_def Q_def n_def
    by (simp only: of_nat_mult real_sum_list power2_eq_square)
  have "1 \<le> S * S" using Spos by (cases S) simp_all
  then have "real 1 \<le> real (S * S)" by (simp only: of_nat_le_iff)
  then have one: "1 \<le> real (S * S)" by simp
  have "real (n * Q) \<le> real (2 ^ 53)" using nQ by (simp only: of_nat_le_iff)
  then have dle: "real (n * Q) \<le> 2 ^ 53" by simp
  have dpos: "0 < real (n * Q)" using n1 Qpos by simp
  have lo: "2 powi (- 53) \<le> q"
  proof -
    have "1 / 2 ^ 53 \<le> 1 / real (n * Q)" using dle dpos by (intro divide_left_mono) simp_all
    also have "\<dots> \<le> real (S * S) / real (n * Q)" using one dpos by (intro divide_right_mono) simp_all
    finally show ?thesis by (simp add: q_def power_int_minus)
  qed
  have hi: "q \<le> 1"
  proof -
    have "real (S * S) \<le> real (n * Q)" using cs by (simp only: of_nat_le_iff)
    then show ?thesis unfolding q_def using dpos by simp
  qed
  have lower: "0 < round64 q"
    using round64_ge [OF lo] pw_pos [of "- 53"] by simp
  have upper: "round64 q \<le> 1" using hi by (rule round64_le_1)
  have equal: "round64 q = 1"
    if eq: "\<forall>t\<in>set threads. \<forall>u\<in>set threads. total_operations t = total_operations u"
  proof -
    obtain t0 where t0: "t0 \<in> set threads" using ne by (cases threads) auto
    define c where "c = unat (total_operations t0)"
    have all: "\<forall>t\<in>set threads. unat (total_operations t) = c"
    proof
      fix t assume "t \<in> set threads"
      with eq t0 have "total_operations t = total_operations t0" by blast
      then show "unat (total_operations t) = c" by (simp only: c_def)
    qed
    have s: "S = n * c" unfolding S_def n_def using all by (rule sum_list_const_nat)
    have "\<forall>t\<in>set threads. unat (total_operations t) * unat (total_operations t) = c * c"
      using all by simp
    then have "Q = n * (c * c)" unfolding Q_def n_def by (rule sum_list_const_nat)
    with s have "S * S = n * Q" by (simp add: algebra_simps)
    then have "q = 1" unfolding q_def using n1 Qpos by simp
    then show ?thesis using round64_of_nat [of 1] by simp
  qed
  have single: "round64 q = round64 (1 / real (length threads))"
    if "\<exists>x. map total_operations threads = replicate (length threads - 1) 0 @ [x]"
  proof -
    from that obtain x
      where x: "map total_operations threads = replicate (length threads - 1) 0 @ [x]" by blast
    have m: "map (\<lambda>t. unat (total_operations t)) threads
               = map unat (map total_operations threads)" by simp
    define X where "X = unat x"
    have s: "S = X" unfolding S_def m x X_def by (simp add: sum_list_replicate)
    have m2: "map (\<lambda>t. unat (total_operations t) * unat (total_operations t)) threads
               = map (\<lambda>w. unat w * unat w) (map total_operations threads)" by simp
    have v: "Q = X * X" unfolding Q_def m2 x X_def by (simp add: sum_list_replicate)
    have "real X \<noteq> 0" using Spos s by simp
    then have "q = 1 / real n" unfolding q_def s v using n1 by simp
    then show ?thesis by (simp only: n_def)
  qed
  show ?thesis
  proof (intro exI [of _ "round64 q"] conjI impI)
    show "overall_fairness_index_b64 threads = Some (round64 q)" by (rule idx)
    show "round64 q = round64 ((\<Sum>t\<leftarrow>threads. real (unat (total_operations t)))\<^sup>2
                     / (real (length threads)
                        * (\<Sum>t\<leftarrow>threads. (real (unat (total_operations t)))\<^sup>2)))"
      by (simp only: form)
    show "0 < round64 q" by (rule lower)
    show "round64 q \<le> 1" by (rule upper)
    show "round64 q = 1"
      if "\<forall>t\<in>set threads. \<forall>u\<in>set threads. total_operations t = total_operations u"
      using that by (rule equal)
    show "round64 q = round64 (1 / real (length threads))"
      if "\<exists>x. map total_operations threads = replicate (length threads - 1) 0 @ [x]"
      using that by (rule single)
  qed
qed

text \<open>
  C1 as stated fails beyond that bound: three threads with 100000007 operations each
  have equal counts, and an index of \<open>1 + 2\<^sup>-\<^sup>5\<^sup>2\<close>, above 1. (The square of 100000007
  is odd and above \<open>2\<^sup>5\<^sup>3\<close>, so it is rounded.)
\<close>

theorem jain_index_rounding_counterexample:
  "overall_fairness_index_b64 (after_run_mutex 0 [100000007, 100000007, 100000007])
     = Some (4503599627370497 / 4503599627370496)
   \<and> (1::real) < 4503599627370497 / 4503599627370496
   \<and> (3::nat) * (100000007 * 100000007 + 100000007 * 100000007 + 100000007 * 100000007)
       > 2 ^ 53"
proof -
  have c: "cast_double 100000007 = 100000007"
    using cast_double_exact [of 100000007] by simp
  have s1: "fadd 0 100000007 = 100000007"
    using round64_real_add [of 0 100000007] by simp
  have s2: "fadd 100000007 100000007 = 200000014"
    using round64_real_add [of 100000007 100000007] by simp
  have s3: "fadd 200000014 100000007 = 300000021"
    using round64_real_add [of 200000014 100000007] by simp
  have sq: "fmul 100000007 100000007 = 10000001400000048"
    unfolding fmul_def
    using round64_eval [of "100000007 * 100000007" 53 5000000700000024]
    by (simp add: rhe_def Let_def)
  have q1: "fadd 0 10000001400000048 = 10000001400000048"
    unfolding fadd_def
    using round64_eval [of "0 + 10000001400000048" 53 5000000700000024]
    by (simp add: rhe_def Let_def)
  have q2: "fadd 10000001400000048 10000001400000048 = 20000002800000096"
    unfolding fadd_def
    using round64_eval [of "10000001400000048 + 10000001400000048" 54 5000000700000024]
    by (simp add: rhe_def Let_def)
  have q3: "fadd 20000002800000096 10000001400000048 = 30000004200000144"
    unfolding fadd_def
    using round64_eval [of "20000002800000096 + 10000001400000048" 54 7500001050000036]
    by (simp add: rhe_def Let_def)
  have ss: "fmul 300000021 300000021 = 90000012600000448"
    unfolding fmul_def
    using round64_eval [of "300000021 * 300000021" 56 5625000787500028]
    by (simp add: rhe_def Let_def)
  have nq: "fmul 3 30000004200000144 = 90000012600000432"
    unfolding fmul_def
    using round64_eval [of "3 * 30000004200000144" 56 5625000787500027]
    by (simp add: rhe_def Let_def)
  have dv: "round64 (5625000787500028 / 5625000787500027)
      = 4503599627370497 / 4503599627370496"
    using round64_eval [of "5625000787500028 / 5625000787500027" 0 4503599627370497]
    by (simp add: rhe_def Let_def)
  have "overall_fairness_index_b64 (after_run_mutex 0 [100000007, 100000007, 100000007])
     = Some (4503599627370497 / 4503599627370496)"
    by (simp add: overall_fairness_index_b64_def sum_ops_loop_b64_def c s1 s2 s3 sq q1 q2 q3
          ss nq fdiv_def dv)
  then show ?thesis by simp
qed

text \<open>
  Four threads with 10 operations each have index 1; one thread doing all 40
  operations of four gives \<open>1/4\<close>, which binary64 represents exactly.
\<close>

theorem jain_index_overall_witness:
  "overall_fairness_index_b64 (after_run_mutex 0 [10, 10, 10, 10]) = Some 1
   \<and> overall_fairness_index_b64 (after_run_mutex 0 [0, 0, 0, 40]) = Some (1 / 4)"
proof -
  have a: "after_run_mutex 0 [10, 10, 10, 10] \<noteq> []"
    "\<exists>t\<in>set (after_run_mutex 0 [10, 10, 10, 10]). total_operations t \<noteq> 0"
    "length (after_run_mutex 0 [10, 10, 10, 10])
       * (\<Sum>t\<leftarrow>after_run_mutex 0 [10, 10, 10, 10].
            unat (total_operations t) * unat (total_operations t)) \<le> 2 ^ 53"
    "\<forall>t\<in>set (after_run_mutex 0 [10, 10, 10, 10]).
       \<forall>u\<in>set (after_run_mutex 0 [10, 10, 10, 10]). total_operations t = total_operations u"
    by simp_all
  have b: "after_run_mutex 0 [0, 0, 0, 40] \<noteq> []"
    "\<exists>t\<in>set (after_run_mutex 0 [0, 0, 0, 40]). total_operations t \<noteq> 0"
    "length (after_run_mutex 0 [0, 0, 0, 40])
       * (\<Sum>t\<leftarrow>after_run_mutex 0 [0, 0, 0, 40].
            unat (total_operations t) * unat (total_operations t)) \<le> 2 ^ 53"
    by simp_all
  have c: "\<exists>x. map total_operations (after_run_mutex 0 [0, 0, 0, 40])
          = replicate (length (after_run_mutex 0 [0, 0, 0, 40]) - 1) 0 @ [x]"
    by (simp add: numeral_3_eq_3)
  have r4: "round64 (1 / 4) = 1 / 4"
    using round64_eval [of "1 / 4" "- 2" 4503599627370496] by (simp add: rhe_def Let_def)
  obtain J where J: "overall_fairness_index_b64 (after_run_mutex 0 [10, 10, 10, 10]) = Some J"
    "(\<forall>t\<in>set (after_run_mutex 0 [10, 10, 10, 10]).
        \<forall>u\<in>set (after_run_mutex 0 [10, 10, 10, 10]). total_operations t = total_operations u)
       \<longrightarrow> J = 1"
    using jain_index_overall [OF a(1) a(2) a(3)] by blast
  from J(2) a(4) have "J = 1" by blast
  with J(1) have "overall_fairness_index_b64 (after_run_mutex 0 [10, 10, 10, 10]) = Some 1"
    by (simp only:)
  moreover
  obtain K where K: "overall_fairness_index_b64 (after_run_mutex 0 [0, 0, 0, 40]) = Some K"
    "(\<exists>x. map total_operations (after_run_mutex 0 [0, 0, 0, 40])
          = replicate (length (after_run_mutex 0 [0, 0, 0, 40]) - 1) 0 @ [x])
       \<longrightarrow> K = round64 (1 / real (length (after_run_mutex 0 [0, 0, 0, 40])))"
    using jain_index_overall [OF b(1) b(2) b(3)] by blast
  from K(2) c have "K = round64 (1 / real (length (after_run_mutex 0 [0, 0, 0, 40])))" by blast
  then have "K = 1 / 4" by (simp add: r4)
  with K(1) have "overall_fairness_index_b64 (after_run_mutex 0 [0, 0, 0, 40]) = Some (1 / 4)"
    by (simp only:)
  ultimately show ?thesis by simp
qed

section \<open>The Gini coefficient\<close>

lemma abs_diff_real: "\<bar>real a - real b\<bar> = real ((a - b) + (b - a))"
  by (cases "a \<le> b") (simp_all add: of_nat_diff)

lemma fsub_real:
  assumes "a \<le> 2 ^ 53" "b \<le> 2 ^ 53"
  shows "\<bar>fsub (real a) (real b)\<bar> = real ((a - b) + (b - a))"
proof (cases "b \<le> a")
  case True
  have "a - b \<le> 2 ^ 53" using assms by simp
  then have "round64 (real (a - b)) = real (a - b)" by (rule round64_of_nat)
  then show ?thesis using True by (simp add: fsub_def of_nat_diff)
next
  case False
  then have ab: "a \<le> b" by simp
  have "b - a \<le> 2 ^ 53" using assms by simp
  then have r: "round64 (real (b - a)) = real (b - a)" by (rule round64_of_nat)
  have m: "real a - real b = - real (b - a)" using ab by (simp add: of_nat_diff)
  have "fsub (real a) (real b) = - real (b - a)"
    unfolding fsub_def m round64_minus r ..
  then have "\<bar>fsub (real a) (real b)\<bar> = real (b - a)" by (simp only: abs_minus abs_of_nat)
  then show ?thesis using ab by simp
qed

lemma gini_inner_fold:
  fixes ys :: "'a thread_config_scheme list"
  assumes "a \<le> 2 ^ 53"
    and "\<forall>tj\<in>set ys. unat (total_operations tj) \<le> 2 ^ 53"
    and "G + (\<Sum>tj\<leftarrow>ys. (a - unat (total_operations tj)) + (unat (total_operations tj) - a))
           \<le> 2 ^ 53"
  shows "fold (\<lambda>tj gini. fadd gini \<bar>fsub (real a) (ops_b64 tj)\<bar>) ys (real G)
       = real (G + (\<Sum>tj\<leftarrow>ys. (a - unat (total_operations tj))
                                 + (unat (total_operations tj) - a)))"
  using assms(2,3)
proof (induction ys arbitrary: G)
  case Nil
  then show ?case by simp
next
  case (Cons t ts)
  define x where "x = unat (total_operations t)"
  define R where "R = (\<Sum>tj\<leftarrow>ts. (a - unat (total_operations tj))
                                 + (unat (total_operations tj) - a))"
  have x53: "x \<le> 2 ^ 53" using Cons.prems(1) by (simp add: x_def)
  have p: "G + ((a - x) + (x - a)) + R \<le> 2 ^ 53"
    using Cons.prems(2) by (simp add: x_def R_def add.assoc)
  then have b: "G + ((a - x) + (x - a)) \<le> 2 ^ 53" by linarith
  have c: "ops_b64 t = real x" unfolding x_def using x53 [unfolded x_def] by (rule cast_double_exact)
  have step: "fadd (real G) \<bar>fsub (real a) (ops_b64 t)\<bar> = real (G + ((a - x) + (x - a)))"
    unfolding c fsub_real [OF assms(1) x53] by (rule round64_real_add [OF b])
  have IH: "fold (\<lambda>tj gini. fadd gini \<bar>fsub (real a) (ops_b64 tj)\<bar>) ts
              (real (G + ((a - x) + (x - a))))
       = real (G + ((a - x) + (x - a)) + R)"
    unfolding R_def using Cons.prems(1) p [unfolded R_def] by (intro Cons.IH) simp_all
  have "fold (\<lambda>tj gini. fadd gini \<bar>fsub (real a) (ops_b64 tj)\<bar>) (t # ts) (real G)
      = fold (\<lambda>tj gini. fadd gini \<bar>fsub (real a) (ops_b64 tj)\<bar>) ts
          (fadd (real G) \<bar>fsub (real a) (ops_b64 t)\<bar>)"
    by simp
  also have "\<dots> = real (G + ((a - x) + (x - a)) + R)" unfolding step by (rule IH)
  also have "\<dots> = real (G + (\<Sum>tj\<leftarrow>t # ts. (a - unat (total_operations tj))
                                 + (unat (total_operations tj) - a)))"
    by (simp add: x_def R_def add.assoc)
  finally show ?case .
qed

lemma gini_outer_fold:
  fixes xs ys :: "'a thread_config_scheme list"
  assumes "\<forall>ti\<in>set xs. unat (total_operations ti) \<le> 2 ^ 53"
    and "\<forall>tj\<in>set ys. unat (total_operations tj) \<le> 2 ^ 53"
    and "G + (\<Sum>ti\<leftarrow>xs. \<Sum>tj\<leftarrow>ys. (unat (total_operations ti) - unat (total_operations tj))
                                 + (unat (total_operations tj) - unat (total_operations ti)))
           \<le> 2 ^ 53"
  shows "fold (\<lambda>ti gini. fold (\<lambda>tj gini. fadd gini \<bar>fsub (ops_b64 ti) (ops_b64 tj)\<bar>) ys gini)
           xs (real G)
       = real (G + (\<Sum>ti\<leftarrow>xs. \<Sum>tj\<leftarrow>ys.
                      (unat (total_operations ti) - unat (total_operations tj))
                    + (unat (total_operations tj) - unat (total_operations ti))))"
  using assms(1,3)
proof (induction xs arbitrary: G)
  case Nil
  then show ?case by simp
next
  case (Cons t ts)
  define a where "a = unat (total_operations t)"
  define I where "I = (\<Sum>tj\<leftarrow>ys. (a - unat (total_operations tj)) + (unat (total_operations tj) - a))"
  define R where "R = (\<Sum>ti\<leftarrow>ts. \<Sum>tj\<leftarrow>ys.
                      (unat (total_operations ti) - unat (total_operations tj))
                    + (unat (total_operations tj) - unat (total_operations ti)))"
  have a53: "a \<le> 2 ^ 53" using Cons.prems(1) by (simp add: a_def)
  have p: "G + I + R \<le> 2 ^ 53"
    using Cons.prems(2) by (simp add: a_def I_def R_def add.assoc)
  then have b: "G + I \<le> 2 ^ 53" by linarith
  have c: "ops_b64 t = real a" unfolding a_def using a53 [unfolded a_def] by (rule cast_double_exact)
  have inner: "fold (\<lambda>tj gini. fadd gini \<bar>fsub (ops_b64 t) (ops_b64 tj)\<bar>) ys (real G)
      = real (G + I)"
    unfolding c I_def using a53 assms(2) b [unfolded I_def] by (rule gini_inner_fold)
  have IH: "fold (\<lambda>ti gini. fold (\<lambda>tj gini. fadd gini \<bar>fsub (ops_b64 ti) (ops_b64 tj)\<bar>) ys gini)
           ts (real (G + I)) = real (G + I + R)"
    unfolding R_def using Cons.prems(1) p [unfolded R_def] by (intro Cons.IH) simp_all
  have "fold (\<lambda>ti gini. fold (\<lambda>tj gini. fadd gini \<bar>fsub (ops_b64 ti) (ops_b64 tj)\<bar>) ys gini)
           (t # ts) (real G)
      = fold (\<lambda>ti gini. fold (\<lambda>tj gini. fadd gini \<bar>fsub (ops_b64 ti) (ops_b64 tj)\<bar>) ys gini)
           ts (fold (\<lambda>tj gini. fadd gini \<bar>fsub (ops_b64 t) (ops_b64 tj)\<bar>) ys (real G))"
    by simp
  also have "\<dots> = real (G + I + R)" unfolding inner by (rule IH)
  also have "\<dots> = real (G + (\<Sum>ti\<leftarrow>t # ts. \<Sum>tj\<leftarrow>ys.
                      (unat (total_operations ti) - unat (total_operations tj))
                    + (unat (total_operations tj) - unat (total_operations ti))))"
    by (simp add: a_def I_def R_def add.assoc)
  finally show ?case .
qed

lemma sum_ops_b64_fst:
  "fst (fold (\<lambda>t (sum_ops, sum_ops_squared).
             (fadd sum_ops (ops_b64 t), fadd sum_ops_squared (fmul (ops_b64 t) (ops_b64 t))))
          threads (a, b))
     = fold (\<lambda>t sum_ops. fadd sum_ops (ops_b64 t)) threads a"
  by (induction threads arbitrary: a b) simp_all

lemma sum_ops_b64_exact:
  fixes threads :: "'a thread_config_scheme list"
  assumes "A + (\<Sum>t\<leftarrow>threads. unat (total_operations t)) \<le> 2 ^ 53"
  shows "fold (\<lambda>t sum_ops. fadd sum_ops (ops_b64 t)) threads (real A)
       = real (A + (\<Sum>t\<leftarrow>threads. unat (total_operations t)))"
  using assms
proof (induction threads arbitrary: A)
  case Nil
  then show ?case by simp
next
  case (Cons t ts)
  define x where "x = unat (total_operations t)"
  define S where "S = (\<Sum>t\<leftarrow>ts. unat (total_operations t))"
  have p: "A + x + S \<le> 2 ^ 53" using Cons.prems by (simp add: x_def S_def add.assoc)
  then have b: "A + x \<le> 2 ^ 53" "x \<le> 2 ^ 53" by linarith+
  have c: "ops_b64 t = real x" unfolding x_def using b(2) [unfolded x_def] by (rule cast_double_exact)
  have step: "fadd (real A) (ops_b64 t) = real (A + x)"
    unfolding c by (rule round64_real_add [OF b(1)])
  have IH: "fold (\<lambda>t sum_ops. fadd sum_ops (ops_b64 t)) ts (real (A + x)) = real (A + x + S)"
    unfolding S_def using p [unfolded S_def] by (rule Cons.IH)
  have "fold (\<lambda>t sum_ops. fadd sum_ops (ops_b64 t)) (t # ts) (real A)
      = fold (\<lambda>t sum_ops. fadd sum_ops (ops_b64 t)) ts (fadd (real A) (ops_b64 t))"
    by simp
  also have "\<dots> = real (A + x + S)" unfolding step by (rule IH)
  also have "\<dots> = real (A + (\<Sum>t\<leftarrow>t # ts. unat (total_operations t)))"
    by (simp add: x_def S_def add.assoc)
  finally show ?case .
qed

lemma dist_sum_inner_le:
  "(\<Sum>y\<leftarrow>ys. (a - f y) + (f y - a)) \<le> length ys * a + (\<Sum>y\<leftarrow>ys. (f y :: nat))"
  by (induction ys) auto

lemma dist_sum_le:
  "(\<Sum>x\<leftarrow>xs. \<Sum>y\<leftarrow>ys. (f x - f y) + (f y - f x))
     \<le> length ys * (\<Sum>x\<leftarrow>xs. f x) + length xs * (\<Sum>y\<leftarrow>ys. (f y :: nat))"
proof (induction xs)
  case Nil
  then show ?case by simp
next
  case (Cons x xs)
  have "(\<Sum>y\<leftarrow>ys. (f x - f y) + (f y - f x)) \<le> length ys * f x + (\<Sum>y\<leftarrow>ys. f y)"
    by (rule dist_sum_inner_le)
  with Cons show ?case by (simp add: algebra_simps)
qed

lemma dist_sum_zero_iff:
  fixes xs ys :: "'a thread_config_scheme list"
  shows "(\<Sum>ti\<leftarrow>xs. \<Sum>tj\<leftarrow>ys. (unat (total_operations ti) - unat (total_operations tj))
                          + (unat (total_operations tj) - unat (total_operations ti))) = 0
     \<longleftrightarrow> (\<forall>ti\<in>set xs. \<forall>tj\<in>set ys. total_operations ti = total_operations tj)"
proof -
  have d: "(a - b) + (b - a) = 0 \<longleftrightarrow> a = b" for a b :: nat by auto
  show ?thesis
    by (simp only: sum_list_eq_0_iff set_map ball_simps d word_unat_eq_iff image_iff)
qed

lemma gini_exact:
  fixes threads :: "'a thread_config_scheme list"
  assumes ne: "threads \<noteq> []"
    and pos: "\<exists>t\<in>set threads. total_operations t \<noteq> 0"
    and small: "2 * length threads * (\<Sum>t\<leftarrow>threads. unat (total_operations t)) \<le> 2 ^ 53"
  shows "\<exists>G. gini threads = Some G
           \<and> G = round64 ((\<Sum>ti\<leftarrow>threads. \<Sum>tj\<leftarrow>threads.
                              \<bar>real (unat (total_operations ti)) - real (unat (total_operations tj))\<bar>)
                           / (2 * real (length threads)
                              * (\<Sum>t\<leftarrow>threads. real (unat (total_operations t)))))
           \<and> (G = 0 \<longleftrightarrow>
                (\<forall>t\<in>set threads. \<forall>u\<in>set threads. total_operations t = total_operations u))"
proof -
  define n where "n = length threads"
  define S where "S = (\<Sum>t\<leftarrow>threads. unat (total_operations t))"
  define D where "D = (\<Sum>ti\<leftarrow>threads. \<Sum>tj\<leftarrow>threads.
                      (unat (total_operations ti) - unat (total_operations tj))
                    + (unat (total_operations tj) - unat (total_operations ti)))"
  define g where "g = real D / real (2 * n * S)"
  have n1: "1 \<le> n" using ne by (cases threads) (simp_all add: n_def)
  from pos obtain t where t: "t \<in> set threads" "unat (total_operations t) \<noteq> 0"
    by (auto simp: unat_eq_0)
  have "unat (total_operations t) \<le> S"
    unfolding S_def using t(1) by (intro member_le_sum_list) auto
  with t(2) have Spos: "1 \<le> S" by linarith
  have nS: "2 * n * S \<le> 2 ^ 53" using small by (simp add: n_def S_def)
  have "S \<le> 2 * n * S" using n1 by simp
  with nS have S53: "S \<le> 2 ^ 53" by linarith
  have "2 * n \<le> 2 * n * S" using Spos by simp
  with nS have n53: "2 * n \<le> 2 ^ 53" by linarith
  have all53: "\<forall>t\<in>set threads. unat (total_operations t) \<le> 2 ^ 53"
  proof
    fix u assume "u \<in> set threads"
    then have "unat (total_operations u) \<le> S"
      unfolding S_def by (intro member_le_sum_list) auto
    with S53 show "unat (total_operations u) \<le> 2 ^ 53" by linarith
  qed
  have "D \<le> n * S + n * S"
    unfolding D_def n_def S_def
    by (rule dist_sum_le [of "\<lambda>t. unat (total_operations t)" threads threads])
  moreover have "n * S + n * S = 2 * n * S" by simp
  ultimately have D53: "D \<le> 2 ^ 53" using nS by linarith
  have gl: "gini_loop threads = real D"
    unfolding gini_loop_def D_def
    using gini_outer_fold [OF all53 all53, of 0] D53 by (simp add: D_def)
  have so: "fst (sum_ops_loop_b64 threads) = real S"
    unfolding sum_ops_loop_b64_def sum_ops_b64_fst S_def
    using sum_ops_b64_exact [of 0 threads] S53 by (simp add: S_def)
  have "fmul (real 2) (real n) = real (2 * n)" using n53 by (rule round64_real_mult)
  then have two: "fmul 2 (real n) = real (2 * n)" by simp
  have den: "fmul (fmul 2 (real n)) (real S) = real (2 * n * S)"
    unfolding two using nS by (rule round64_real_mult)
  have dpos: "0 < real (2 * n * S)" using n1 Spos by simp
  have val: "gini threads = Some (round64 g)"
    unfolding gini_def gl so n_def [symmetric] den g_def using n1 Spos by (simp add: fdiv_def)
  have form: "g = (\<Sum>ti\<leftarrow>threads. \<Sum>tj\<leftarrow>threads.
                              \<bar>real (unat (total_operations ti)) - real (unat (total_operations tj))\<bar>)
                           / (2 * real (length threads)
                              * (\<Sum>t\<leftarrow>threads. real (unat (total_operations t))))"
    unfolding g_def D_def S_def n_def
    by (simp only: of_nat_mult real_sum_list abs_diff_real of_nat_numeral)
  have zero: "round64 g = 0 \<longleftrightarrow> D = 0"
  proof (cases "D = 0")
    case True
    then show ?thesis by (simp add: g_def round64_0)
  next
    case False
    then have "1 \<le> D" by simp
    then have "real 1 \<le> real D" by (simp only: of_nat_le_iff)
    then have one: "1 \<le> real D" by simp
    have "real (2 * n * S) \<le> real (2 ^ 53)" using nS by (simp only: of_nat_le_iff)
    then have dle: "real (2 * n * S) \<le> 2 ^ 53" by simp
    have "1 / 2 ^ 53 \<le> 1 / real (2 * n * S)" using dle dpos by (intro divide_left_mono) simp_all
    also have "\<dots> \<le> real D / real (2 * n * S)"
      using one dpos by (intro divide_right_mono) simp_all
    finally have "2 powi (- 53) \<le> g" by (simp add: g_def power_int_minus)
    then have "2 powi (- 53) \<le> round64 g" by (rule round64_ge) simp
    then have "0 < round64 g" using pw_pos [of "- 53"] by linarith
    with False show ?thesis by simp
  qed
  have eq: "D = 0 \<longleftrightarrow>
      (\<forall>t\<in>set threads. \<forall>u\<in>set threads. total_operations t = total_operations u)"
    unfolding D_def by (rule dist_sum_zero_iff)
  show ?thesis
  proof (intro exI [of _ "round64 g"] conjI)
    show "gini threads = Some (round64 g)" by (rule val)
    show "round64 g = round64 ((\<Sum>ti\<leftarrow>threads. \<Sum>tj\<leftarrow>threads.
                              \<bar>real (unat (total_operations ti)) - real (unat (total_operations tj))\<bar>)
                           / (2 * real (length threads)
                              * (\<Sum>t\<leftarrow>threads. real (unat (total_operations t)))))"
      by (simp only: form)
    show "round64 g = 0 \<longleftrightarrow>
        (\<forall>t\<in>set threads. \<forall>u\<in>set threads. total_operations t = total_operations u)"
      using zero eq by simp
  qed
qed

text \<open>
  C4, as amended. Let the per-thread operation counts have a positive total and
  \<open>2 \<cdot> n \<cdot> \<Sum>x\<^sub>i \<le> 2\<^sup>5\<^sup>3\<close>, so that every conversion, difference, sum and product of lines
  715-721 is exact in binary64. Then the Gini coefficient of
  \<^verbatim>\<open>print_hierarchy_stats\<close> is defined and is the binary64 rounding of
  \<open>\<Sum>\<^sub>i \<Sum>\<^sub>j |x\<^sub>i - x\<^sub>j| / (2 \<cdot> n \<cdot> \<Sum>x\<^sub>i)\<close>; it is 0 if and only if all counts are equal; for
  the counts 10, 10, 10, 10 it is 0 and for 0, 0, 0, 40 it is \<open>3/4\<close>.
\<close>

theorem gini_coefficient:
  fixes threads :: "'a thread_config_scheme list"
  assumes ne: "threads \<noteq> []"
    and pos: "\<exists>t\<in>set threads. total_operations t \<noteq> 0"
    and small: "2 * length threads * (\<Sum>t\<leftarrow>threads. unat (total_operations t)) \<le> 2 ^ 53"
  shows "(\<exists>G. gini threads = Some G
           \<and> G = round64 ((\<Sum>ti\<leftarrow>threads. \<Sum>tj\<leftarrow>threads.
                              \<bar>real (unat (total_operations ti)) - real (unat (total_operations tj))\<bar>)
                           / (2 * real (length threads)
                              * (\<Sum>t\<leftarrow>threads. real (unat (total_operations t)))))
           \<and> (G = 0 \<longleftrightarrow>
                (\<forall>t\<in>set threads. \<forall>u\<in>set threads. total_operations t = total_operations u)))
         \<and> gini (after_run_mutex 0 [10, 10, 10, 10]) = Some 0
         \<and> gini (after_run_mutex 0 [0, 0, 0, 40]) = Some (3 / 4)"
proof -
  have general: "\<exists>G. gini threads = Some G
           \<and> G = round64 ((\<Sum>ti\<leftarrow>threads. \<Sum>tj\<leftarrow>threads.
                              \<bar>real (unat (total_operations ti)) - real (unat (total_operations tj))\<bar>)
                           / (2 * real (length threads)
                              * (\<Sum>t\<leftarrow>threads. real (unat (total_operations t)))))
           \<and> (G = 0 \<longleftrightarrow>
                (\<forall>t\<in>set threads. \<forall>u\<in>set threads. total_operations t = total_operations u))"
    using ne pos small by (rule gini_exact)
  have a: "after_run_mutex 0 [10, 10, 10, 10] \<noteq> []"
    "\<exists>t\<in>set (after_run_mutex 0 [10, 10, 10, 10]). total_operations t \<noteq> 0"
    "2 * length (after_run_mutex 0 [10, 10, 10, 10])
       * (\<Sum>t\<leftarrow>after_run_mutex 0 [10, 10, 10, 10]. unat (total_operations t)) \<le> 2 ^ 53"
    "\<forall>t\<in>set (after_run_mutex 0 [10, 10, 10, 10]).
       \<forall>u\<in>set (after_run_mutex 0 [10, 10, 10, 10]). total_operations t = total_operations u"
    by simp_all
  obtain G where G: "gini (after_run_mutex 0 [10, 10, 10, 10]) = Some G"
    "G = 0 \<longleftrightarrow> (\<forall>t\<in>set (after_run_mutex 0 [10, 10, 10, 10]).
       \<forall>u\<in>set (after_run_mutex 0 [10, 10, 10, 10]). total_operations t = total_operations u)"
    using gini_exact [OF a(1) a(2) a(3)] by blast
  from G(2) a(4) have "G = 0" by blast
  with G(1) have g10: "gini (after_run_mutex 0 [10, 10, 10, 10]) = Some 0" by (simp only:)
  have b: "after_run_mutex 0 [0, 0, 0, 40] \<noteq> []"
    "\<exists>t\<in>set (after_run_mutex 0 [0, 0, 0, 40]). total_operations t \<noteq> 0"
    "2 * length (after_run_mutex 0 [0, 0, 0, 40])
       * (\<Sum>t\<leftarrow>after_run_mutex 0 [0, 0, 0, 40]. unat (total_operations t)) \<le> 2 ^ 53"
    by simp_all
  have r34: "round64 (3 / 4) = 3 / 4"
    using round64_eval [of "3 / 4" "- 1" 6755399441055744] by (simp add: rhe_def Let_def)
  obtain H where H: "gini (after_run_mutex 0 [0, 0, 0, 40]) = Some H"
    "H = round64 ((\<Sum>ti\<leftarrow>after_run_mutex 0 [0, 0, 0, 40]. \<Sum>tj\<leftarrow>after_run_mutex 0 [0, 0, 0, 40].
                              \<bar>real (unat (total_operations ti)) - real (unat (total_operations tj))\<bar>)
                           / (2 * real (length (after_run_mutex 0 [0, 0, 0, 40]))
                              * (\<Sum>t\<leftarrow>after_run_mutex 0 [0, 0, 0, 40].
                                   real (unat (total_operations t)))))"
    using gini_exact [OF b(1) b(2) b(3)] by blast
  from H(2) have "H = 3 / 4" by (simp add: r34)
  with H(1) have g40: "gini (after_run_mutex 0 [0, 0, 0, 40]) = Some (3 / 4)" by (simp only:)
  from general g10 g40 show ?thesis by (intro conjI)
qed

text \<open>
  C4 as stated fails where the conversion to \<^verbatim>\<open>double\<close> rounds: the counts \<open>2\<^sup>5\<^sup>3\<close> and
  \<open>2\<^sup>5\<^sup>3 + 1\<close> differ, both convert to \<open>2\<^sup>5\<^sup>3\<close>, and the Gini coefficient is 0.
\<close>

theorem gini_rounding_counterexample:
  "gini (after_run_mutex 0 [9007199254740992, 9007199254740993]) = Some 0
   \<and> (9007199254740992 :: ull) \<noteq> 9007199254740993
   \<and> cast_double 9007199254740993 = 9007199254740992"
proof -
  have c1: "cast_double 9007199254740992 = 9007199254740992"
    using cast_double_exact [of 9007199254740992] by simp
  have c2: "cast_double 9007199254740993 = 9007199254740992"
    unfolding cast_double_def
    using round64_eval [of "real_of_int (uint (9007199254740993 :: ull))" 53 4503599627370496]
    by (simp add: rhe_def Let_def)
  have d: "fsub 9007199254740992 9007199254740992 = 0" by (simp add: fsub_def round64_0)
  have z: "fadd 0 0 = 0" by (simp add: fadd_def round64_0)
  have s1: "fadd 0 9007199254740992 = 9007199254740992"
    using round64_real_add [of 0 9007199254740992] by simp
  have s2: "fadd 9007199254740992 9007199254740992 = 18014398509481984"
    unfolding fadd_def
    using round64_eval [of "9007199254740992 + 9007199254740992" 54 4503599627370496]
    by (simp add: rhe_def Let_def)
  have m1: "fmul 2 2 = 4" using round64_real_mult [of 2 2] by simp
  have m2: "fmul 4 18014398509481984 = 72057594037927936"
    unfolding fmul_def
    using round64_eval [of "4 * 18014398509481984" 56 4503599627370496]
    by (simp add: rhe_def Let_def)
  have "gini (after_run_mutex 0 [9007199254740992, 9007199254740993]) = Some 0"
    by (simp add: gini_def gini_loop_def sum_ops_loop_b64_def sum_ops_b64_fst c1 c2 d z s1 s2
          m1 m2 fdiv_def round64_0)
  with c2 show ?thesis by simp
qed

text \<open>The counts 0, 0, 0, 40 satisfy the hypotheses; they are not all equal.\<close>

theorem gini_coefficient_witness:
  "gini (after_run_mutex 0 [0, 0, 0, 40]) = Some (3 / 4)
   \<and> \<not> (\<forall>t\<in>set (after_run_mutex 0 [0, 0, 0, 40]).
          \<forall>u\<in>set (after_run_mutex 0 [0, 0, 0, 40]). total_operations t = total_operations u)"
proof -
  have a: "after_run_mutex 0 [0, 0, 0, 40] \<noteq> []"
    "\<exists>t\<in>set (after_run_mutex 0 [0, 0, 0, 40]). total_operations t \<noteq> 0"
    "2 * length (after_run_mutex 0 [0, 0, 0, 40])
       * (\<Sum>t\<leftarrow>after_run_mutex 0 [0, 0, 0, 40]. unat (total_operations t)) \<le> 2 ^ 53"
    by simp_all
  have g: "gini (after_run_mutex 0 [0, 0, 0, 40]) = Some (3 / 4)"
    using gini_coefficient [OF a] by (elim conjE)
  obtain G where G: "gini (after_run_mutex 0 [0, 0, 0, 40]) = Some G"
    "G = 0 \<longleftrightarrow> (\<forall>t\<in>set (after_run_mutex 0 [0, 0, 0, 40]).
          \<forall>u\<in>set (after_run_mutex 0 [0, 0, 0, 40]). total_operations t = total_operations u)"
    using gini_coefficient [OF a] by blast
  from G(1) g have "G \<noteq> 0" by simp
  with G(2) g show ?thesis by blast
qed

section \<open>Throughput spread\<close>


lemma min_max_fold:
  "fold (\<lambda>t (min_ops, max_ops).
           (if ops t < min_ops then ops t else min_ops,
            if ops t > max_ops then ops t else max_ops)) ts (b, c) =
     (fold min (map ops ts) b, fold max (map ops ts) c)"
  by (induction ts arbitrary: b c) (simp_all add: min_def max_def)




lemma fold_min_Min: "fold min xs (x::real) = Min (set (x # xs))"
  by (simp only: Min.set_eq_fold)

lemma fold_max_Max: "fold max xs (x::real) = Max (set (x # xs))"
  by (simp only: Max.set_eq_fold)


lemma fstats_min_max_eq:
  assumes "threads \<noteq> []"
  shows "fstats_min_max threads = Some (Min (ops ` set threads), Max (ops ` set threads))"
proof -
  obtain t0 rest where t: "threads = t0 # rest" using assms by (cases threads) auto
  have mn: "fold min (map ops rest) (ops t0) = Min (ops ` set threads)"
    unfolding fold_min_Min t by simp
  have mx: "fold max (map ops rest) (ops t0) = Max (ops ` set threads)"
    unfolding fold_max_Max t by simp
  have "fstats_min_max threads =
     Some (fold min (map ops rest) (ops t0), fold max (map ops rest) (ops t0))"
    unfolding fstats_min_max_def t by (simp only: list.case min_max_fold)
  then show ?thesis by (simp only: mn mx)
qed

lemma fstats_totals_fold:
  "fold (\<lambda>t (total_ops, total_lock_wait, total_lock_acquisitions).
             (total_ops + total_operations t,
              total_lock_wait + lock_wait_time t,
              total_lock_acquisitions + lock_acquisitions t)) ts (a, b, c) =
     (a + sum_list (map total_operations ts), b + sum_list (map lock_wait_time ts),
      c + sum_list (map lock_acquisitions ts))"
  by (induction ts arbitrary: a b c) (simp_all add: algebra_simps)

lemma fstats_total_ops_eq:
  "fstats_total_ops threads = sum_list (map total_operations threads)"
  by (simp add: fstats_total_ops_def fstats_totals_def fstats_totals_fold)





section \<open>The fairness index of \<^verbatim>\<open>print_fairness_stats\<close>\<close>

text \<open>
  The index of \<^verbatim>\<open>print_fairness_stats\<close> reads the counts only through their total:
  two runs of equally many threads with the same total get the same index, however
  the operations are spread over the threads.
\<close>

lemma fairness_index_total_only:
  assumes "length threads = length threads'"
    and "fstats_total_ops threads = fstats_total_ops threads'"
  shows "fstats_fairness_index threads = fstats_fairness_index threads'"
  by (simp only: fstats_fairness_index_def fstats_avg_ops_def assms)

text \<open>
  C2 claims that the index of \<^verbatim>\<open>print_fairness_stats\<close> equals Jain's index as
  \<^verbatim>\<open>print_hierarchy_stats\<close> computes it on the same counts. The code, evaluated on two
  threads with 1 and 3 operations: \<^verbatim>\<open>avg_ops\<close> is 2, the dividend \<open>2 \<cdot> 2 \<cdot> 2\<close> is 8, the
  divisor \<open>4 \<cdot> 4 / 2\<close> is 8, so \<^verbatim>\<open>print_fairness_stats\<close> prints 1, while
  \<^verbatim>\<open>print_hierarchy_stats\<close> and the formula of the specification give \<open>16 / (2 \<cdot> 10) = 4/5\<close>.
  (In binary64 the sums and products of \<^verbatim>\<open>print_hierarchy_stats\<close> are exact here and the
  quotient is the double nearest to \<open>4/5\<close>.)
\<close>

theorem fairness_index_not_jain:
  "fstats_fairness_index (after_run_fair 0 [1, 3]) = Some 1
   \<and> overall_fairness_index (after_run_fair 0 [1, 3]) = Some (4 / 5)
   \<and> spec_jain_index (after_run_fair 0 [1, 3]) = 4 / 5
   \<and> overall_fairness_index_b64 (after_run_fair 0 [1, 3])
       = Some (3602879701896397 / 4503599627370496)"
proof -
  have exact: "fstats_fairness_index (after_run_fair 0 [1, 3]) = Some 1
     \<and> overall_fairness_index (after_run_fair 0 [1, 3]) = Some (4 / 5)
     \<and> spec_jain_index (after_run_fair 0 [1, 3]) = 4 / 5"
    by (simp add: fstats_fairness_index_def fstats_avg_ops_def fstats_total_ops_def
          fstats_totals_def overall_fairness_index_def sum_ops_loop_def spec_jain_index_def
          ddiv_def to_double_def)
  have c: "cast_double 1 = 1" "cast_double 3 = 3"
    using cast_double_exact [of 1] cast_double_exact [of 3] by simp_all
  have s: "fadd 0 1 = 1" "fadd 1 3 = 4" "fadd 1 9 = 10"
    using round64_real_add [of 0 1] round64_real_add [of 1 3] round64_real_add [of 1 9]
    by simp_all
  have m: "fmul 1 1 = 1" "fmul 3 3 = 9" "fmul 4 4 = 16" "fmul 2 10 = 20"
    using round64_real_mult [of 1 1] round64_real_mult [of 3 3] round64_real_mult [of 4 4]
      round64_real_mult [of 2 10]
    by simp_all
  have d: "round64 (4 / 5) = 3602879701896397 / 4503599627370496"
    using round64_eval [of "4 / 5" "- 1" 7205759403792794] by (simp add: rhe_def Let_def)
  have "overall_fairness_index_b64 (after_run_fair 0 [1, 3])
       = Some (3602879701896397 / 4503599627370496)"
    by (simp add: overall_fairness_index_b64_def sum_ops_loop_b64_def c s m fdiv_def d)
  with exact show ?thesis by simp
qed

section \<open>\<^verbatim>\<open>print_fairness_stats\<close> when no operation was completed\<close>

lemma sum_list_all_zero:
  "\<forall>t\<in>set ts. f t = (0::ull) \<Longrightarrow> sum_list (map f ts) = 0"
  by (induction ts) simp_all

lemma thread_row_defined:
  assumes d: "duration \<noteq> 0"
    and la: "unat (lock_acquisitions t) * CYCLE_PER_US < 2 ^ 64"
  shows "thread_row t duration \<noteq> None"
proof (cases "lock_acquisitions t = 0")
  case True
  then show ?thesis using d by (simp add: thread_row_def ddiv_def Let_def)
next
  case False
  have c: "unat (of_nat CYCLE_PER_US :: ull) = CYCLE_PER_US"
    by (simp add: CYCLE_PER_US_def)
  have "unat (lock_acquisitions t) * unat (of_nat CYCLE_PER_US :: ull) < 2 ^ LENGTH(64)"
    using la by (simp only: c) simp
  then have "unat (lock_acquisitions t * of_nat CYCLE_PER_US)
      = unat (lock_acquisitions t) * unat (of_nat CYCLE_PER_US :: ull)"
    by (simp only: unat_mult_lem)
  moreover have "0 < unat (lock_acquisitions t)" using False by (simp add: unat_gt_0)
  ultimately have "0 < unat (lock_acquisitions t * of_nat CYCLE_PER_US)"
    by (simp add: c CYCLE_PER_US_def)
  then have "lock_acquisitions t * of_nat CYCLE_PER_US \<noteq> 0"
    by (simp add: unat_gt_0)
  then have "to_double (lock_acquisitions t * of_nat CYCLE_PER_US) \<noteq> 0"
    by (simp only: to_double_eq_0_iff not_False_eq_True)
  then show ?thesis using d by (simp add: thread_row_def ddiv_def Let_def)
qed

lemma thread_rows_defined:
  assumes "duration \<noteq> 0"
    and "\<forall>t\<in>set threads. unat (lock_acquisitions t) * CYCLE_PER_US < 2 ^ 64"
  shows "thread_rows threads duration \<noteq> None"
  using assms(2)
proof (induction threads)
  case Nil
  then show ?case by simp
next
  case (Cons t ts)
  have "unat (lock_acquisitions t) * CYCLE_PER_US < 2 ^ 64" using Cons.prems by simp
  then have r: "thread_row t duration \<noteq> None" by (rule thread_row_defined [OF assms(1)])
  have rs: "thread_rows ts duration \<noteq> None" using Cons by simp
  from r rs show ?case by auto
qed

lemma total_line_defined:
  "duration \<noteq> 0 \<Longrightarrow> fstats_total_line threads duration \<noteq> None"
  by (simp add: fstats_total_line_def ddiv_def split: prod.splits)

text \<open>
  C10, as amended. When there is at least one thread and every thread completed zero
  operations, \<^verbatim>\<open>avg_ops\<close> is 0, the division of the fairness index is skipped and the
  index printed is exactly 0 (outside \<open>(0,1]\<close>), and the Throughput Variation line is
  \<^verbatim>\<open>N/A\<close>. If moreover \<^verbatim>\<open>duration\<close> is not 0 and no product
  \<^verbatim>\<open>lock_acquisitions * CYCLE_PER_US\<close> overflows, no division of the whole function has
  a zero divisor.
\<close>

theorem zero_total_fairness_stats:
  assumes ne: "threads \<noteq> []"
    and zero: "\<forall>t\<in>set threads. total_operations t = 0"
  shows "fstats_avg_ops threads = Some 0
       \<and> fstats_fairness_index threads = Some 0
       \<and> fstats_throughput_variation threads = Some NA
       \<and> (duration \<noteq> 0
            \<and> (\<forall>t\<in>set threads. unat (lock_acquisitions t) * CYCLE_PER_US < 2 ^ 64)
           \<longrightarrow> (\<exists>r. print_fairness_stats threads duration = Some r
                    \<and> index r = 0 \<and> variation r = NA))"
proof -
  have tot: "fstats_total_ops threads = 0"
    using zero by (simp add: fstats_total_ops_eq sum_list_all_zero)
  have n: "real (length threads) \<noteq> 0" using ne by simp
  have avg: "fstats_avg_ops threads = Some 0"
    using n by (simp add: fstats_avg_ops_def tot ddiv_def to_double_0)
  have idx: "fstats_fairness_index threads = Some 0"
    by (simp add: fstats_fairness_index_def avg tot)
  obtain mn mx where mm: "fstats_min_max threads = Some (mn, mx)"
    using fstats_min_max_eq [OF ne] by blast
  have var: "fstats_throughput_variation threads = Some NA"
    by (simp add: fstats_throughput_variation_def mm avg)
  have whole: "\<exists>r. print_fairness_stats threads duration = Some r \<and> index r = 0 \<and> variation r = NA"
    if d: "duration \<noteq> 0"
      and la: "\<forall>t\<in>set threads. unat (lock_acquisitions t) * CYCLE_PER_US < 2 ^ 64"
  proof -
    obtain rs where rs: "thread_rows threads duration = Some rs"
      using thread_rows_defined [OF d la] by blast
    obtain tot where tl: "fstats_total_line threads duration = Some tot"
      using total_line_defined [OF d] by blast
    show ?thesis
      by (simp add: print_fairness_stats_def rs tl mm avg idx var)
  qed
  from avg idx var whole show ?thesis by blast
qed

text \<open>
  C10 as stated fails for \<^verbatim>\<open>duration = 0\<close>, which \<^verbatim>\<open>main\<close> accepts: with one thread
  that completed nothing, the total is zero and the first division of the function,
  \<^verbatim>\<open>(double)t->total_operations / duration\<close>, divides by zero.
\<close>

theorem zero_total_division_counterexample:
  "fstats_total_ops (after_run_fair 0 [0]) = 0
   \<and> thread_row (hd (after_run_fair 0 [0])) 0 = None
   \<and> print_fairness_stats (after_run_fair 0 [0]) 0 = None"
  by (simp add: fstats_total_ops_def fstats_totals_def thread_row_def print_fairness_stats_def
        ddiv_def to_double_def)

text \<open>Two idle threads and a duration of ten seconds satisfy all hypotheses.\<close>

theorem zero_total_fairness_stats_witness:
  "\<exists>r. print_fairness_stats (after_run_fair 0 [0, 0]) 10 = Some r \<and> index r = 0 \<and> variation r = NA"
proof -
  have a: "after_run_fair 0 [0, 0] \<noteq> []"
    "\<forall>t\<in>set (after_run_fair 0 [0, 0]). total_operations t = 0"
    by simp_all
  have b: "(10::int) \<noteq> 0
      \<and> (\<forall>t\<in>set (after_run_fair 0 [0, 0]). unat (lock_acquisitions t) * CYCLE_PER_US < 2 ^ 64)"
    by (simp add: CYCLE_PER_US_def)
  from zero_total_fairness_stats [OF a, of 10] b show ?thesis by blast
qed


section \<open>The balanced hierarchy\<close>

lemma length_fold_update:
  "length (fold (\<lambda>i h. h[nat i := f i]) ks h) = length h"
  by (induction ks arbitrary: h) simp_all

lemma nth_fold_update:
  assumes "\<forall>i\<in>set ks. 0 \<le> i" and "k < length h"
  shows "fold (\<lambda>i h. h[nat i := f i]) ks h ! k = (if int k \<in> set ks then f (int k) else h ! k)"
  using assms
proof (induction ks arbitrary: h)
  case Nil
  then show ?case by simp
next
  case (Cons i ks)
  have i: "0 \<le> i" using Cons.prems(1) by simp
  have eq: "nat i = k \<longleftrightarrow> i = int k" using i by auto
  have "fold (\<lambda>i h. h[nat i := f i]) (i # ks) h ! k
          = fold (\<lambda>i h. h[nat i := f i]) ks (h[nat i := f i]) ! k" by simp
  also have "\<dots> = (if int k \<in> set ks then f (int k) else h[nat i := f i] ! k)"
    using Cons.prems by (intro Cons.IH) simp_all
  also have "\<dots> = (if int k \<in> set (i # ks) then f (int k) else h ! k)"
    using Cons.prems(2) eq by (auto simp: nth_list_update)
  finally show ?case .
qed

text \<open>
  C7. For every thread count from 1 to 16, \<^verbatim>\<open>init_balanced_hierarchy\<close> builds an array
  of \<open>threadCount + 1\<close> nodes in which node 0 is its own parent and every node \<open>i\<close> with
  \<open>1 \<le> i \<le> threadCount\<close> has id \<open>i\<close> and parent \<open>\<lfloor>(i - 1) / 2\<rfloor>\<close>; for seven threads the
  parent of node 3 is node 1 and the parent of node 6 is node 2.
\<close>

theorem balanced_hierarchy_parents:
  assumes lo: "1 \<le> num_threads" and hi: "num_threads \<le> 16"
  shows "length (fst (init_balanced_hierarchy num_threads now junk)) = nat (num_threads + 1)
       \<and> node_id (fst (init_balanced_hierarchy num_threads now junk) ! 0) = 0
       \<and> parent (fst (init_balanced_hierarchy num_threads now junk) ! 0) = 0
       \<and> (\<forall>i. 1 \<le> i \<and> i \<le> num_threads \<longrightarrow>
             node_id (fst (init_balanced_hierarchy num_threads now junk) ! nat i) = i
           \<and> parent (fst (init_balanced_hierarchy num_threads now junk) ! nat i)
               = \<lfloor>(real_of_int i - 1) / 2\<rfloor>)
       \<and> parent (fst (init_balanced_hierarchy 7 now junk) ! 3) = 1
       \<and> parent (fst (init_balanced_hierarchy 7 now junk) ! 6) = 2"
proof -
  let ?f = "\<lambda>i. mk_node i ((i - 1) div 2) 0 now"
  have gen: "fst (init_balanced_hierarchy n now junk) =
      fold (\<lambda>i h. h[nat i := ?f i]) [1..n]
        ((malloc_nodes (n + 1) junk)[0 := mk_node 0 0 0 now])" for n
    by (simp add: init_balanced_hierarchy_def Let_def)
  have len: "length (fst (init_balanced_hierarchy n now junk)) = nat (n + 1)" for n
    by (simp add: gen length_fold_update malloc_nodes_def)
  have nth: "fst (init_balanced_hierarchy n now junk) ! k =
      (if 1 \<le> int k then ?f (int k) else mk_node 0 0 0 now)"
    if "int k \<le> n" for n k
  proof -
    have k: "k < length ((malloc_nodes (n + 1) junk)[0 := mk_node 0 0 0 now])"
      using that by (simp add: malloc_nodes_def)
    have "fst (init_balanced_hierarchy n now junk) ! k =
        (if int k \<in> set [1..n] then ?f (int k)
         else (malloc_nodes (n + 1) junk)[0 := mk_node 0 0 0 now] ! k)"
      unfolding gen by (rule nth_fold_update [OF _ k]) simp
    also have "\<dots> = (if 1 \<le> int k then ?f (int k) else mk_node 0 0 0 now)"
    proof (cases "k = 0")
      case True
      then show ?thesis using k by simp
    next
      case False
      then show ?thesis using that by auto
    qed
    finally show ?thesis .
  qed
  have root: "fst (init_balanced_hierarchy num_threads now junk) ! 0 = mk_node 0 0 0 now"
    using nth [of 0 num_threads] lo by simp
  have inner: "node_id (fst (init_balanced_hierarchy num_threads now junk) ! nat i) = i
           \<and> parent (fst (init_balanced_hierarchy num_threads now junk) ! nat i)
               = \<lfloor>(real_of_int i - 1) / 2\<rfloor>"
    if "1 \<le> i \<and> i \<le> num_threads" for i
  proof -
    have "fst (init_balanced_hierarchy num_threads now junk) ! nat i = ?f i"
      using nth [of "nat i" num_threads] that by simp
    moreover have "\<lfloor>(real_of_int i - 1) / 2\<rfloor> = (i - 1) div 2"
      using floor_divide_of_int_eq [of "i - 1" 2, where ?'a = real] by simp
    ultimately show ?thesis by (simp add: mk_node_def)
  qed
  have p3: "parent (fst (init_balanced_hierarchy 7 now junk) ! 3) = 1"
    using nth [of 3 7] by (simp add: mk_node_def)
  have p6: "parent (fst (init_balanced_hierarchy 7 now junk) ! 6) = 2"
    using nth [of 6 7] by (simp add: mk_node_def)
  from len [of num_threads] root inner p3 p6 show ?thesis
    by (simp add: mk_node_def)
qed

text \<open>Seven threads: the parents of the eight nodes, read off the theorem.\<close>

theorem balanced_hierarchy_parents_witness:
  "map parent (fst (init_balanced_hierarchy 7 1000 (mk_node 99 99 99 99)))
     = [0, 0, 0, 1, 1, 2, 2, 3]"
proof -
  have a: "(1::int) \<le> 7" "(7::int) \<le> 16" by simp_all
  let ?h = "fst (init_balanced_hierarchy 7 1000 (mk_node 99 99 99 99))"
  from balanced_hierarchy_parents [OF a, of 1000 "mk_node 99 99 99 99"]
  have len: "length ?h = 8" and p0: "parent (?h ! 0) = 0"
    and pi: "\<And>i. 1 \<le> i \<and> i \<le> 7 \<Longrightarrow> parent (?h ! nat i) = \<lfloor>(real_of_int i - 1) / 2\<rfloor>"
    by simp_all
  have "parent (?h ! 1) = 0" "parent (?h ! 2) = 0" "parent (?h ! 3) = 1" "parent (?h ! 4) = 1"
    "parent (?h ! 5) = 2" "parent (?h ! 6) = 2" "parent (?h ! 7) = 3"
    using pi [of 1] pi [of 2] pi [of 3] pi [of 4] pi [of 5] pi [of 6] pi [of 7] by simp_all
  with p0 len show ?thesis
    by (intro nth_equalityI) (auto simp: less_Suc_eq numeral_eq_Suc)
qed


section \<open>The worker loop\<close>












section \<open>Find and update on an empty keyspace\<close>




section \<open>Validation of the command line\<close>

lemma rhe_gt_even:
  assumes "even K"
  shows "K < rhe m \<longleftrightarrow> of_int K + 1 / 2 < m"
proof
  assume a: "of_int K + 1 / 2 < m"
  then have f: "K \<le> \<lfloor>m\<rfloor>" by (simp add: le_floor_iff)
  show "K < rhe m"
  proof (cases "\<lfloor>m\<rfloor> = K")
    case True
    then have "1 / 2 < m - of_int \<lfloor>m\<rfloor>" using a by simp
    then show ?thesis unfolding rhe_def Let_def using True by simp
  next
    case False
    with f have "K + 1 \<le> \<lfloor>m\<rfloor>" by simp
    moreover have "\<lfloor>m\<rfloor> \<le> rhe m" by (rule rhe_ge) simp
    ultimately show ?thesis by simp
  qed
next
  assume b: "K < rhe m"
  show "of_int K + 1 / 2 < m"
  proof (rule ccontr)
    assume "\<not> of_int K + 1 / 2 < m"
    then have le: "m \<le> of_int K + 1 / 2" by simp
    then have "m < of_int (K + 1)" by simp
    then have "\<lfloor>m\<rfloor> < K + 1" by (simp only: floor_less_iff)
    then have f: "\<lfloor>m\<rfloor> \<le> K" by simp
    have "rhe m \<le> K"
    proof (cases "\<lfloor>m\<rfloor> = K")
      case True
      then have "m - of_int \<lfloor>m\<rfloor> \<le> 1 / 2" using le by simp
      then show ?thesis unfolding rhe_def Let_def using True assms by simp
    next
      case False
      with f have "\<lfloor>m\<rfloor> + 1 \<le> K" by simp
      moreover have "rhe m \<le> \<lfloor>m\<rfloor> + 1" by (rule rhe_le) simp
      ultimately show ?thesis by simp
    qed
    with b show False by simp
  qed
qed

lemma round64_gt_1_iff: "1 < round64 x \<longleftrightarrow> 1 + 2 powi (- 53) < x"
proof (cases "x \<le> 1")
  case True
  then show ?thesis using round64_le_1 [OF True] pw_pos [of "- 53"] by simp
next
  case False
  then have x1: "1 < x" by simp
  show ?thesis
  proof (cases "x < 2")
    case True
    have "round64 x = of_int (rhe (x / 2 powi (0 - 52))) * 2 powi (0 - 52)"
      using x1 True by (intro round64_eq) simp_all
    then have e: "round64 x = of_int (rhe (x * 2 ^ 52)) / 2 ^ 52"
      by (simp add: power_int_minus field_simps)
    have "1 < round64 x \<longleftrightarrow> (2::int) ^ 52 < rhe (x * 2 ^ 52)"
      unfolding e by (simp add: field_simps)
    also have "\<dots> \<longleftrightarrow> of_int ((2::int) ^ 52) + 1 / 2 < x * 2 ^ 52"
      by (rule rhe_gt_even) simp
    also have "\<dots> \<longleftrightarrow> 1 + 2 powi (- 53) < x"
      by (simp add: power_int_minus field_simps)
    finally show ?thesis .
  next
    case False
    then have "2 powi 1 \<le> x" by simp
    from round64_ge [OF this] have "2 \<le> round64 x" by simp
    moreover have "1 + 2 powi (- 53) < x" using False by (simp add: power_int_minus)
    ultimately show ?thesis by simp
  qed
qed

lemma round64_err_pos:
  assumes "0 < x" "x \<le> 1"
  shows "\<bar>round64 x - x\<bar> \<le> 2 powi (- 54)"
proof (cases "x = 1")
  case True
  then show ?thesis using round64_of_nat [of 1] pw_pos [of "- 54"] by simp
next
  case False
  with assms have x1: "x < 1" by simp
  define e where "e = max (expo x) (- 1022)"
  have "expo x \<le> - 1"
  proof -
    have "(2::real) powi expo x < 2 powi 0" using expo_bounds [OF assms(1)] x1 by simp
    then have "expo x < 0" by (rule pw_less_imp)
    then show ?thesis by simp
  qed
  then have e1: "e \<le> - 1" by (simp add: e_def)
  define u where "u = (2::real) powi (e - 52)"
  have u0: "0 < u" by (simp add: u_def pw_pos)
  have ule: "u \<le> 2 powi (- 53)" unfolding u_def using e1 by (intro pw_mono) simp
  have r: "round64 x = of_int (rhe (x / u)) * u"
    using round64_pos [OF assms(1)] by (simp add: u_def e_def)
  have "round64 x - x = (of_int (rhe (x / u)) - x / u) * u"
    unfolding r using u0 by (simp add: field_simps)
  then have "\<bar>round64 x - x\<bar> = \<bar>of_int (rhe (x / u)) - x / u\<bar> * u"
    using u0 by (simp add: abs_mult)
  also have "\<dots> \<le> (1 / 2) * u"
    using rhe_err [of "x / u"] u0 by (intro mult_right_mono) simp_all
  also have "\<dots> \<le> (1 / 2) * 2 powi (- 53)" using ule by simp
  also have "\<dots> = 2 powi (- 54)" by (simp add: power_int_minus)
  finally show ?thesis .
qed

lemma round64_err_1:
  assumes "\<bar>x\<bar> \<le> 1"
  shows "\<bar>round64 x - x\<bar> \<le> 2 powi (- 54)"
proof -
  consider "x = 0" | "0 < x" | "x < 0" by linarith
  then show ?thesis
  proof cases
    case 1
    then show ?thesis using pw_pos [of "- 54"] by (simp add: round64_0)
  next
    case 2
    then show ?thesis using assms by (intro round64_err_pos) simp_all
  next
    case 3
    then have "\<bar>round64 (- x) - (- x)\<bar> \<le> 2 powi (- 54)"
      using assms by (intro round64_err_pos) simp_all
    moreover have "\<bar>round64 (- x) - (- x)\<bar> = \<bar>round64 x - x\<bar>"
      unfolding round64_minus by linarith
    ultimately show ?thesis by simp
  qed
qed

lemma round64_unit: "0 \<le> x \<Longrightarrow> x \<le> 1 \<Longrightarrow> 0 \<le> round64 x \<and> round64 x \<le> 1"
  by (simp add: round64_nonneg round64_le_1)

lemma update_ratio_error:
  assumes "0 \<le> ir" "ir \<le> 1" "0 \<le> fr" "fr \<le> 1"
  shows "\<bar>ir + fr + fsub (fsub 1 ir) fr - 1\<bar> \<le> 2 powi (- 53)"
proof -
  define u where "u = fsub 1 ir"
  have u: "0 \<le> u \<and> u \<le> 1" unfolding u_def fsub_def using assms by (intro round64_unit) simp_all
  have e1: "\<bar>u - (1 - ir)\<bar> \<le> 2 powi (- 54)"
    unfolding u_def fsub_def using assms by (intro round64_err_1) simp
  have e2: "\<bar>fsub u fr - (u - fr)\<bar> \<le> 2 powi (- 54)"
    unfolding fsub_def using assms u by (intro round64_err_1) linarith
  have "(2::real) powi (- 53) = 2 powi (- 54) + 2 powi (- 54)" by (simp add: power_int_minus)
  with e1 e2 show ?thesis unfolding u_def [symmetric] by linarith
qed

lemma main_mutex_rejects:
  assumes "fadd (parsed_insert_ratio a) (parsed_find_ratio a) > 1"
  shows "exit_status (main_mutex a sys) = 1"
    and "\<forall>x\<in>set (trace (main_mutex a sys)). is_output x"
    and "threads_of (main_mutex a sys) = []"
  using assms by (simp_all add: main_mutex_def exit_early_def usage_mutex_def Let_def)

lemma main_fair_rejects:
  assumes "fadd (parsed_insert_ratio a) (parsed_find_ratio a) > 1"
  shows "exit_status (main_fair a sys) = 1"
    and "\<forall>x\<in>set (trace (main_fair a sys)). is_output x"
    and "threads_of (main_fair a sys) = []"
    and "hierarchy_of (main_fair a sys) = []"
  using assms by (simp_all add: main_fair_def exit_early_def usage_fair_def Let_def)

lemma main_mutex_threads_of:
  "threads_of (main_mutex a sys) = []
   \<or> (\<not> fadd (parsed_insert_ratio a) (parsed_find_ratio a) > 1
      \<and> threads_of (main_mutex a sys) =
          map (\<lambda>i. init_thread_mutex i (parsed_insert_ratio a) (parsed_find_ratio a)
                     (fsub (fsub 1 (parsed_insert_ratio a)) (parsed_find_ratio a)) (arg_duration a))
              [0..arg_num_threads a - 1])"
proof -
  obtain ret acts where l: "init_lock (parsed_lock_type a) sys = (ret, acts)"
    by (cases "init_lock (parsed_lock_type a) sys") auto
  show ?thesis
    by (simp add: main_mutex_def l exit_early_def Let_def)
qed

lemma main_fair_threads_of:
  "threads_of (main_fair a sys) = []
   \<or> (\<not> fadd (parsed_insert_ratio a) (parsed_find_ratio a) > 1
      \<and> threads_of (main_fair a sys) =
          map (\<lambda>i. init_thread_fair (parsed_hierarchy_type a) (arg_num_threads a) i
                     (parsed_insert_ratio a) (parsed_find_ratio a)
                     (fsub (fsub 1 (parsed_insert_ratio a)) (parsed_find_ratio a)) (arg_duration a))
              [0..arg_num_threads a - 1])"
proof -
  obtain h acts where l:
    "init_hierarchy (arg_num_threads a) (parsed_hierarchy_type a) (rdtsc_now sys) (malloc_junk sys)
       = (h, acts)"
    by (cases "init_hierarchy (arg_num_threads a) (parsed_hierarchy_type a) (rdtsc_now sys)
                 (malloc_junk sys)") auto
  show ?thesis
    by (simp add: main_fair_def l exit_early_def Let_def)
qed

lemma init_thread_fair_ratios:
  "insert_ratio (init_thread_fair ty n i ir fr ur d) = ir"
  "find_ratio (init_thread_fair ty n i ir fr ur d) = fr"
  "update_ratio (init_thread_fair ty n i ir fr ur d) = ur"
  by (simp_all add: init_thread_fair_def split: prod.splits)

lemma init_thread_mutex_ratios:
  "insert_ratio (init_thread_mutex i ir fr ur d) = ir"
  "find_ratio (init_thread_mutex i ir fr ur d) = fr"
  "update_ratio (init_thread_mutex i ir fr ur d) = ur"
  by (simp_all add: init_thread_mutex_def)

lemma main_mutex_threads:
  assumes "t \<in> set (threads_of (main_mutex a sys))"
  shows "insert_ratio t = parsed_insert_ratio a \<and> find_ratio t = parsed_find_ratio a
       \<and> update_ratio t = fsub (fsub 1 (parsed_insert_ratio a)) (parsed_find_ratio a)
       \<and> \<not> fadd (parsed_insert_ratio a) (parsed_find_ratio a) > 1"
proof -
  from assms have "threads_of (main_mutex a sys) \<noteq> []" by auto
  with main_mutex_threads_of [of a sys]
  have r: "\<not> fadd (parsed_insert_ratio a) (parsed_find_ratio a) > 1"
    and m: "threads_of (main_mutex a sys) =
          map (\<lambda>i. init_thread_mutex i (parsed_insert_ratio a) (parsed_find_ratio a)
                     (fsub (fsub 1 (parsed_insert_ratio a)) (parsed_find_ratio a)) (arg_duration a))
              [0..arg_num_threads a - 1]"
    by blast+
  from assms obtain i where "t = init_thread_mutex i (parsed_insert_ratio a) (parsed_find_ratio a)
                     (fsub (fsub 1 (parsed_insert_ratio a)) (parsed_find_ratio a)) (arg_duration a)"
    unfolding m by auto
  with r show ?thesis by (simp add: init_thread_mutex_ratios)
qed

lemma main_fair_threads:
  assumes "t \<in> set (threads_of (main_fair a sys))"
  shows "insert_ratio t = parsed_insert_ratio a \<and> find_ratio t = parsed_find_ratio a
       \<and> update_ratio t = fsub (fsub 1 (parsed_insert_ratio a)) (parsed_find_ratio a)
       \<and> \<not> fadd (parsed_insert_ratio a) (parsed_find_ratio a) > 1"
proof -
  from assms have "threads_of (main_fair a sys) \<noteq> []" by auto
  with main_fair_threads_of [of a sys]
  have r: "\<not> fadd (parsed_insert_ratio a) (parsed_find_ratio a) > 1"
    and m: "threads_of (main_fair a sys) =
          map (\<lambda>i. init_thread_fair (parsed_hierarchy_type a) (arg_num_threads a) i
                     (parsed_insert_ratio a) (parsed_find_ratio a)
                     (fsub (fsub 1 (parsed_insert_ratio a)) (parsed_find_ratio a)) (arg_duration a))
              [0..arg_num_threads a - 1]"
    by blast+
  from assms obtain i where "t = init_thread_fair (parsed_hierarchy_type a) (arg_num_threads a) i
                     (parsed_insert_ratio a) (parsed_find_ratio a)
                     (fsub (fsub 1 (parsed_insert_ratio a)) (parsed_find_ratio a)) (arg_duration a)"
    unfolding m by auto
  with r show ?thesis by (simp add: init_thread_fair_ratios)
qed

lemma accepted_ratios:
  assumes "update_ratio t = fsub (fsub 1 (insert_ratio t)) (find_ratio t)"
    and "\<not> fadd (insert_ratio t) (find_ratio t) > 1"
  shows "update_ratio t = fsub (fsub 1 (insert_ratio t)) (find_ratio t)
       \<and> insert_ratio t + find_ratio t \<le> 1 + 2 powi (- 53)
       \<and> (0 \<le> insert_ratio t \<and> insert_ratio t \<le> 1 \<and> 0 \<le> find_ratio t \<and> find_ratio t \<le> 1
            \<longrightarrow> \<bar>insert_ratio t + find_ratio t + update_ratio t - 1\<bar> \<le> 2 powi (- 53))"
proof -
  from assms(2) have "insert_ratio t + find_ratio t \<le> 1 + 2 powi (- 53)"
    unfolding fadd_def round64_gt_1_iff by simp
  moreover have "\<bar>insert_ratio t + find_ratio t + update_ratio t - 1\<bar> \<le> 2 powi (- 53)"
    if "0 \<le> insert_ratio t \<and> insert_ratio t \<le> 1 \<and> 0 \<le> find_ratio t \<and> find_ratio t \<le> 1"
    unfolding assms(1) using that by (intro update_ratio_error) simp_all
  ultimately show ?thesis using assms(1) by blast
qed

text \<open>
  C3, as amended, for finite parsed ratios. Both \<^verbatim>\<open>main\<close> functions compare the
  binary64 sum of the parsed \<^verbatim>\<open>insert_ratio\<close> and \<^verbatim>\<open>find_ratio\<close> with 1.0, and that sum
  exceeds 1.0 exactly when the real sum of the two doubles exceeds \<open>1 + 2\<^sup>-\<^sup>5\<^sup>3\<close>. Whenever it does, both return a
  non-zero status having done nothing but print: no lock or hierarchy is initialised,
  the store is not opened, no thread record is set up and no thread is created. In
  every run that gets as far as setting up its threads, each thread's
  \<^verbatim>\<open>update_ratio\<close> is the binary64 value of \<open>(1.0 - insert_ratio) - find_ratio\<close>,
  \<open>insert_ratio + find_ratio \<le> 1 + 2\<^sup>-\<^sup>5\<^sup>3\<close>, and when both ratios lie in \<open>[0,1]\<close> the three
  ratios sum to 1 within \<open>2\<^sup>-\<^sup>5\<^sup>3\<close>.
\<close>

theorem ratio_sum_validation:
  "(round64 (parsed_insert_ratio a + parsed_find_ratio a) > 1
      \<longleftrightarrow> parsed_insert_ratio a + parsed_find_ratio a > 1 + 2 powi (- 53))
   \<and> (parsed_insert_ratio a + parsed_find_ratio a > 1 + 2 powi (- 53) \<longrightarrow>
       exit_status (main_mutex a sys) \<noteq> 0
     \<and> (\<forall>x\<in>set (trace (main_mutex a sys)). is_output x)
     \<and> threads_of (main_mutex a sys) = []
     \<and> exit_status (main_fair a sys) \<noteq> 0
     \<and> (\<forall>x\<in>set (trace (main_fair a sys)). is_output x)
     \<and> threads_of (main_fair a sys) = []
     \<and> hierarchy_of (main_fair a sys) = [])
   \<and> (\<forall>t\<in>set (threads_of (main_mutex a sys)).
         update_ratio t = round64 (round64 (1 - insert_ratio t) - find_ratio t)
       \<and> insert_ratio t + find_ratio t \<le> 1 + 2 powi (- 53)
       \<and> (0 \<le> insert_ratio t \<and> insert_ratio t \<le> 1 \<and> 0 \<le> find_ratio t \<and> find_ratio t \<le> 1
            \<longrightarrow> \<bar>insert_ratio t + find_ratio t + update_ratio t - 1\<bar> \<le> 2 powi (- 53)))
   \<and> (\<forall>t\<in>set (threads_of (main_fair a sys)).
         update_ratio t = round64 (round64 (1 - insert_ratio t) - find_ratio t)
       \<and> insert_ratio t + find_ratio t \<le> 1 + 2 powi (- 53)
       \<and> (0 \<le> insert_ratio t \<and> insert_ratio t \<le> 1 \<and> 0 \<le> find_ratio t \<and> find_ratio t \<le> 1
            \<longrightarrow> \<bar>insert_ratio t + find_ratio t + update_ratio t - 1\<bar> \<le> 2 powi (- 53)))"
proof -
  have iff: "round64 (parsed_insert_ratio a + parsed_find_ratio a) > 1
      \<longleftrightarrow> parsed_insert_ratio a + parsed_find_ratio a > 1 + 2 powi (- 53)"
    by (rule round64_gt_1_iff)
  have rej: "exit_status (main_mutex a sys) \<noteq> 0
     \<and> (\<forall>x\<in>set (trace (main_mutex a sys)). is_output x)
     \<and> threads_of (main_mutex a sys) = []
     \<and> exit_status (main_fair a sys) \<noteq> 0
     \<and> (\<forall>x\<in>set (trace (main_fair a sys)). is_output x)
     \<and> threads_of (main_fair a sys) = []
     \<and> hierarchy_of (main_fair a sys) = []"
    if "parsed_insert_ratio a + parsed_find_ratio a > 1 + 2 powi (- 53)"
  proof -
    from that iff have r: "fadd (parsed_insert_ratio a) (parsed_find_ratio a) > 1"
      by (simp add: fadd_def)
    show ?thesis
      using main_mutex_rejects [OF r, of sys] main_fair_rejects [OF r, of sys] by simp
  qed
  have mu: "update_ratio t = round64 (round64 (1 - insert_ratio t) - find_ratio t)
       \<and> insert_ratio t + find_ratio t \<le> 1 + 2 powi (- 53)
       \<and> (0 \<le> insert_ratio t \<and> insert_ratio t \<le> 1 \<and> 0 \<le> find_ratio t \<and> find_ratio t \<le> 1
            \<longrightarrow> \<bar>insert_ratio t + find_ratio t + update_ratio t - 1\<bar> \<le> 2 powi (- 53))"
    if t: "t \<in> set (threads_of (main_mutex a sys))" for t
    using main_mutex_threads [OF t] accepted_ratios [of t] by (simp add: fsub_def)
  have fa: "update_ratio t = round64 (round64 (1 - insert_ratio t) - find_ratio t)
       \<and> insert_ratio t + find_ratio t \<le> 1 + 2 powi (- 53)
       \<and> (0 \<le> insert_ratio t \<and> insert_ratio t \<le> 1 \<and> 0 \<le> find_ratio t \<and> find_ratio t \<le> 1
            \<longrightarrow> \<bar>insert_ratio t + find_ratio t + update_ratio t - 1\<bar> \<le> 2 powi (- 53))"
    if t: "t \<in> set (threads_of (main_fair a sys))" for t
    using main_fair_threads [OF t] accepted_ratios [of t] by (simp add: fsub_def)
  from iff rej mu fa show ?thesis by blast
qed

text \<open>
  C3 as stated fails in both halves. The doubles 0.5 and \<open>0.5 + 2\<^sup>-\<^sup>5\<^sup>3\<close> (the double
  nearest to 0.5000000000000001) have a sum above 1, which binary64 rounds to 1.0:
  both programs accept them and run four threads. And the doubles nearest to 0.3 and
  0.6 are accepted with an \<^verbatim>\<open>update_ratio\<close> that makes the three ratios sum to
  \<open>1 - 2\<^sup>-\<^sup>5\<^sup>4\<close>, not to 1.
\<close>

theorem ratio_sum_rounding_counterexample:
  "(1::real) < 1 / 2 + 4503599627370497 / 9007199254740992
   \<and> exit_status (main_mutex (cmd 4 (1 / 2) (4503599627370497 / 9007199254740992) 0) all_ok) = 0
   \<and> length (threads_of
        (main_mutex (cmd 4 (1 / 2) (4503599627370497 / 9007199254740992) 0) all_ok)) = 4
   \<and> exit_status (main_fair (cmd 4 (1 / 2) (4503599627370497 / 9007199254740992) 0) all_ok) = 0
   \<and> length (threads_of
        (main_fair (cmd 4 (1 / 2) (4503599627370497 / 9007199254740992) 0) all_ok)) = 4
   \<and> round64 0.3 = 5404319552844595 / 18014398509481984
   \<and> round64 0.6 = 5404319552844595 / 9007199254740992
   \<and> map (\<lambda>t. insert_ratio t + find_ratio t + update_ratio t)
       (threads_of (main_mutex (cmd 1 (5404319552844595 / 18014398509481984)
                                      (5404319552844595 / 9007199254740992) 0) all_ok))
       = [1 - 1 / 2 ^ 54]"
proof -
  have t: "(1 < fadd (1 / 2) (4503599627370497 / 9007199254740992)) = False"
    unfolding fadd_def round64_gt_1_iff by (simp add: power_int_minus)
  have a: "exit_status (main_mutex (cmd 4 (1 / 2) (4503599627370497 / 9007199254740992) 0) all_ok) = 0"
    "length (threads_of
        (main_mutex (cmd 4 (1 / 2) (4503599627370497 / 9007199254740992) 0) all_ok)) = 4"
    by (simp_all add: main_mutex_def cmd_def all_ok_def parsed_insert_ratio_def
          parsed_find_ratio_def MAX_THREADS_def init_lock_def LOCK_MUTEX_def Let_def
          parsed_lock_type_def t)
  have b: "exit_status (main_fair (cmd 4 (1 / 2) (4503599627370497 / 9007199254740992) 0) all_ok) = 0"
    "length (threads_of
        (main_fair (cmd 4 (1 / 2) (4503599627370497 / 9007199254740992) 0) all_ok)) = 4"
    by (simp_all add: main_fair_def cmd_def all_ok_def parsed_insert_ratio_def
          parsed_find_ratio_def MAX_THREADS_def Let_def
          parsed_hierarchy_type_def HIERARCHY_FLAT_def init_hierarchy_def
          init_flat_hierarchy_def t)
  have r3: "round64 (3 / 10) = 5404319552844595 / 18014398509481984"
  proof -
    have "round64 (3 / 10) = of_int (rhe ((3 / 10) / 2 powi (- 2 - 52))) * 2 powi (- 2 - 52)"
      by (rule round64_eq) simp_all
    also have "rhe ((3 / 10) / 2 powi (- 2 - 52)) = 5404319552844595"
      by (simp add: rhe_def Let_def)
    finally show ?thesis by simp
  qed
  have r6: "round64 (6 / 10) = 5404319552844595 / 9007199254740992"
  proof -
    have "round64 (6 / 10) = of_int (rhe ((6 / 10) / 2 powi (- 1 - 52))) * 2 powi (- 1 - 52)"
      by (rule round64_eq) simp_all
    also have "rhe ((6 / 10) / 2 powi (- 1 - 52)) = 5404319552844595"
      by (simp add: rhe_def Let_def)
    finally show ?thesis by simp
  qed
  have s1: "fsub 1 (5404319552844595 / 18014398509481984) = 3152519739159347 / 4503599627370496"
  proof -
    have "round64 (12610078956637389 / 18014398509481984)
        = of_int (rhe ((12610078956637389 / 18014398509481984) / 2 powi (- 1 - 52)))
            * 2 powi (- 1 - 52)"
      by (rule round64_eq) simp_all
    also have "rhe ((12610078956637389 / 18014398509481984) / 2 powi (- 1 - 52))
        = 6305039478318694"
      by (simp add: rhe_def Let_def)
    finally show ?thesis by (simp add: fsub_def)
  qed
  have s2: "fsub (3152519739159347 / 4503599627370496) (5404319552844595 / 9007199254740992)
      = 900719925474099 / 9007199254740992"
  proof -
    have "round64 (900719925474099 / 9007199254740992)
        = of_int (rhe ((900719925474099 / 9007199254740992) / 2 powi (- 4 - 52)))
            * 2 powi (- 4 - 52)"
      by (rule round64_eq) simp_all
    also have "rhe ((900719925474099 / 9007199254740992) / 2 powi (- 4 - 52))
        = 7205759403792792"
      by (simp add: rhe_def Let_def)
    finally show ?thesis by (simp add: fsub_def)
  qed
  have c: "map (\<lambda>t. insert_ratio t + find_ratio t + update_ratio t)
       (threads_of (main_mutex (cmd 1 (5404319552844595 / 18014398509481984)
                                      (5404319552844595 / 9007199254740992) 0) all_ok))
       = [1 - 1 / 2 ^ 54]"
    by (simp add: main_mutex_def cmd_def all_ok_def parsed_insert_ratio_def
          parsed_find_ratio_def MAX_THREADS_def init_lock_def LOCK_MUTEX_def Let_def
          parsed_lock_type_def fadd_le_1 s1 s2 init_thread_mutex_def)
  from a b c r3 r6 show ?thesis by simp
qed

text \<open>
  The doubles nearest to 0.6 and 0.5 are rejected by both programs; the ratios 0.25
  and 0.5 are accepted and give four threads whose ratios sum to 1 within \<open>2\<^sup>-\<^sup>5\<^sup>3\<close>.
\<close>

theorem ratio_sum_validation_witness:
  "1 + 2 powi (- 53) < parsed_insert_ratio (cmd 4 (5404319552844595 / 9007199254740992) (1 / 2) 0)
                        + parsed_find_ratio (cmd 4 (5404319552844595 / 9007199254740992) (1 / 2) 0)
   \<and> 1 < round64 (parsed_insert_ratio (cmd 4 (5404319552844595 / 9007199254740992) (1 / 2) 0)
                  + parsed_find_ratio (cmd 4 (5404319552844595 / 9007199254740992) (1 / 2) 0))
   \<and> exit_status (main_mutex (cmd 4 (5404319552844595 / 9007199254740992) (1 / 2) 0) all_ok) \<noteq> 0
   \<and> exit_status (main_fair (cmd 4 (5404319552844595 / 9007199254740992) (1 / 2) 0) all_ok) \<noteq> 0
   \<and> threads_of (main_mutex (cmd 4 (5404319552844595 / 9007199254740992) (1 / 2) 0) all_ok) = []
   \<and> map (\<lambda>t. \<bar>insert_ratio t + find_ratio t + update_ratio t - 1\<bar> \<le> 2 powi (- 53))
         (threads_of (main_mutex (cmd 4 (1 / 4) (1 / 2) 0) all_ok)) = [True, True, True, True]
   \<and> map (\<lambda>t. \<bar>insert_ratio t + find_ratio t + update_ratio t - 1\<bar> \<le> 2 powi (- 53))
         (threads_of (main_fair (cmd 4 (1 / 4) (1 / 2) 0) all_ok)) = [True, True, True, True]"
proof -
  let ?r = "cmd 4 (5404319552844595 / 9007199254740992) (1 / 2) 0"
  let ?a = "cmd 4 (1 / 4) (1 / 2) 0"
  have r: "1 + 2 powi (- 53) < parsed_insert_ratio ?r + parsed_find_ratio ?r"
    by (simp add: parsed_insert_ratio_def parsed_find_ratio_def cmd_def power_int_minus)
  have p: "parsed_insert_ratio ?a = 1 / 4" "parsed_find_ratio ?a = 1 / 2"
    by (simp_all add: parsed_insert_ratio_def parsed_find_ratio_def cmd_def)
  have acc: "(1 < fadd (1 / 4) (1 / 2)) = False" by (rule fadd_le_1) simp
  have l: "length (threads_of (main_mutex ?a all_ok)) = 4"
    "length (threads_of (main_fair ?a all_ok)) = 4"
    by (simp_all add: main_mutex_def main_fair_def cmd_def all_ok_def parsed_insert_ratio_def
          parsed_find_ratio_def MAX_THREADS_def init_lock_def LOCK_MUTEX_def Let_def
          parsed_lock_type_def parsed_hierarchy_type_def HIERARCHY_FLAT_def init_hierarchy_def
          init_flat_hierarchy_def acc)
  have trues: "map f ts = [True, True, True, True]"
    if "length ts = 4" and "\<forall>t\<in>set ts. f t" for f :: "'t \<Rightarrow> bool" and ts
  proof -
    have "map f ts = map (\<lambda>t. True) ts" using that(2) by (simp only: map_eq_conv) simp
    also have "\<dots> = replicate (length ts) True" by (simp only: map_replicate_const)
    also have "\<dots> = [True, True, True, True]" by (simp add: that(1) numeral_eq_Suc)
    finally show ?thesis .
  qed
  from ratio_sum_validation [of ?r all_ok] r
  have rej: "1 < round64 (parsed_insert_ratio ?r + parsed_find_ratio ?r)"
    "exit_status (main_mutex ?r all_ok) \<noteq> 0"
    "exit_status (main_fair ?r all_ok) \<noteq> 0"
    "threads_of (main_mutex ?r all_ok) = []"
    by blast+
  from ratio_sum_validation [of ?a all_ok]
  have acc1: "\<forall>t\<in>set (threads_of (main_mutex ?a all_ok)).
         0 \<le> insert_ratio t \<and> insert_ratio t \<le> 1 \<and> 0 \<le> find_ratio t \<and> find_ratio t \<le> 1
            \<longrightarrow> \<bar>insert_ratio t + find_ratio t + update_ratio t - 1\<bar> \<le> 2 powi (- 53)"
    and acc2: "\<forall>t\<in>set (threads_of (main_fair ?a all_ok)).
         0 \<le> insert_ratio t \<and> insert_ratio t \<le> 1 \<and> 0 \<le> find_ratio t \<and> find_ratio t \<le> 1
            \<longrightarrow> \<bar>insert_ratio t + find_ratio t + update_ratio t - 1\<bar> \<le> 2 powi (- 53)"
    by blast+
  have m: "\<forall>t\<in>set (threads_of (main_mutex ?a all_ok)).
         \<bar>insert_ratio t + find_ratio t + update_ratio t - 1\<bar> \<le> 2 powi (- 53)"
  proof
    fix t assume t: "t \<in> set (threads_of (main_mutex ?a all_ok))"
    from main_mutex_threads [OF t] have "insert_ratio t = 1 / 4" "find_ratio t = 1 / 2"
      by (simp_all add: p)
    with acc1 t show "\<bar>insert_ratio t + find_ratio t + update_ratio t - 1\<bar> \<le> 2 powi (- 53)"
      by simp
  qed
  have f: "\<forall>t\<in>set (threads_of (main_fair ?a all_ok)).
         \<bar>insert_ratio t + find_ratio t + update_ratio t - 1\<bar> \<le> 2 powi (- 53)"
  proof
    fix t assume t: "t \<in> set (threads_of (main_fair ?a all_ok))"
    from main_fair_threads [OF t] have "insert_ratio t = 1 / 4" "find_ratio t = 1 / 2"
      by (simp_all add: p)
    with acc2 t show "\<bar>insert_ratio t + find_ratio t + update_ratio t - 1\<bar> \<le> 2 powi (- 53)"
      by simp
  qed
  from r rej trues [OF l(1) m] trues [OF l(2) f] show ?thesis by (intro conjI)
qed

section \<open>Selectors outside the defined range\<close>














end
